theory Spec2Isabelle
  imports Complex_Main "HOL-Library.AList" "HOL-Library.Sublist"
begin

section \<open>Values, dictionaries and exceptions\<close>

text \<open>
  The control plane (\<^verbatim>\<open>ad_control_plane.py\<close>) works on one Python dictionary per task, the
  context. Its values are JSON-like. Python strings are modelled as \<^typ>\<open>string\<close> holding
  the UTF-8 bytes of the text; a Python \<^verbatim>\<open>float\<close> is modelled by the exact rational it
  stands for (the only floats of the control plane are the progress percentages, see
  \<open>calculate_progress\<close>). A dictionary is an association list in insertion order.
  Nested dictionaries and the lists inside module results are never mutated in place by the
  control plane, so they are values. The one list object that the control plane mutates in
  place is an error log (\<^verbatim>\<open>context["error_log"].append(...)\<close>); such list objects live
  in a store and the dictionary holds a reference \<open>PRef\<close> to them.
\<close>

datatype pyval =
    PNone
  | PBool bool
  | PInt int
  | PFloat rat
  | PStr string
  | PList "pyval list"
  | PDict "(string \<times> pyval) list"
  | PRef nat

type_synonym dict = "(string \<times> pyval) list"

type_synonym store = "nat \<Rightarrow> pyval list"

text \<open>
  Exceptions (all of them subclasses of Python's \<^verbatim>\<open>Exception\<close>). \<open>KeyError\<close> carries
  the missing key, the others their message. \<open>str_exn\<close> is Python's \<^verbatim>\<open>str(e)\<close>:
  for a \<^verbatim>\<open>KeyError\<close> it is the \<^verbatim>\<open>repr\<close> of the key, in single quotes.
\<close>

datatype exn =
    KeyError string
  | TypeError string
  | ValueError string
  | PyException string

fun str_exn :: "exn \<Rightarrow> string" where
  "str_exn (KeyError k) = [CHR 0x27] @ k @ [CHR 0x27]"
| "str_exn (TypeError m) = m"
| "str_exn (ValueError m) = m"
| "str_exn (PyException m) = m"

text \<open>\<^verbatim>\<open>d[k]\<close> on a dictionary.\<close>

definition getitem :: "dict \<Rightarrow> string \<Rightarrow> exn + pyval" where
  "getitem d k = (case map_of d k of None \<Rightarrow> Inl (KeyError k) | Some v \<Rightarrow> Inr v)"

text \<open>\<^verbatim>\<open>k in d\<close> on a dictionary.\<close>

definition has_key :: "dict \<Rightarrow> string \<Rightarrow> bool" where
  "has_key d k = (k \<in> fst ` set d)"

text \<open>\<^verbatim>\<open>d.update(u)\<close>: the entries of \<open>u\<close> are stored in order; a key that is
  already there keeps its place.\<close>

definition dict_update :: "dict \<Rightarrow> dict \<Rightarrow> dict" where
  "dict_update d u = foldl (\<lambda>acc kv. AList.update (fst kv) (snd kv) acc) d u"

text \<open>\<^verbatim>\<open>json.dump\<close> writes the lists a dictionary refers to, not the references.\<close>

primrec resolve :: "store \<Rightarrow> pyval \<Rightarrow> pyval" where
  "resolve h PNone = PNone"
| "resolve h (PBool b) = PBool b"
| "resolve h (PInt i) = PInt i"
| "resolve h (PFloat r) = PFloat r"
| "resolve h (PStr s) = PStr s"
| "resolve h (PList xs) = PList (map (resolve h) xs)"
| "resolve h (PDict kvs) = PDict (map (map_prod id (resolve h)) kvs)"
| "resolve h (PRef a) = PList (h a)"

definition snapshot :: "store \<Rightarrow> dict \<Rightarrow> dict" where
  "snapshot h d = map (map_prod id (resolve h)) d"

section \<open>Configuration (\<^verbatim>\<open>ad_agent_core.py\<close>) and the fixed schedule\<close>

definition PAUSE_NODES :: "string list" where
  "PAUSE_NODES = [''story_builder'', ''storyboard_designer'']"

definition BASE_OUTPUT_DIR :: string where
  "BASE_OUTPUT_DIR = ''./ad_output''"

text \<open>\<^verbatim>\<open>self.schedule_flow\<close> of \<^verbatim>\<open>AdMCPControlPlane.__init__\<close>.\<close>

definition schedule_flow :: "string list" where
  "schedule_flow =
     [''demand_interact'', ''story_builder'', ''scene_designer'',
      ''storyboard_designer'', ''grid_image_generator'', ''image_optimizer'',
      ''video_generator'']"

text \<open>\<^verbatim>\<open>os.path.join(a, b)\<close> on POSIX, for two components.\<close>

definition path_join :: "string \<Rightarrow> string \<Rightarrow> string" where
  "path_join a b =
     (if b \<noteq> [] \<and> hd b = CHR ''/'' then b
      else if a = [] \<or> last a = CHR ''/'' then a @ b
      else a @ ''/'' @ b)"

section \<open>Progress\<close>

text \<open>
  Python's \<^verbatim>\<open>round(x, ndigits)\<close>: to the nearest multiple of \<open>10 ^ -ndigits\<close>, a tie going
  to the even neighbour. On the exact rational value.
\<close>

definition py_round :: "rat \<Rightarrow> nat \<Rightarrow> rat" where
  "py_round x nd =
     (let sc = 10 ^ nd;
          y = x * sc;
          f = \<lfloor>y\<rfloor>;
          d = y - of_int f
      in of_int (if d < 1 / 2 then f
                 else if 1 / 2 < d then f + 1
                 else if even f then f else f + 1) / sc)"

text \<open>\<^verbatim>\<open>xs.index(x)\<close>: the first position of \<open>x\<close>, \<^verbatim>\<open>ValueError\<close> when absent.\<close>

fun list_index :: "string list \<Rightarrow> string \<Rightarrow> exn + nat" where
  "list_index [] x = Inl (ValueError (x @ '' is not in list''))"
| "list_index (y # ys) x =
     (if y = x then Inr 0
      else case list_index ys x of Inl e \<Rightarrow> Inl e | Inr i \<Rightarrow> Inr (Suc i))"

text \<open>\<^verbatim>\<open>AdMCPControlPlane._calculate_progress\<close>.\<close>

definition calculate_progress :: "string \<Rightarrow> exn + rat" where
  "calculate_progress current_module =
     (case list_index schedule_flow current_module of
        Inl e \<Rightarrow> Inl e
      | Inr step_idx \<Rightarrow>
          (let total_steps = length schedule_flow
           in Inr (py_round (of_nat (step_idx + 1) / of_nat total_steps * 100) 2)))"

section \<open>Modules (\<^verbatim>\<open>ad_modules.py\<close>)\<close>

text \<open>
  The seven module classes. A module's \<^verbatim>\<open>run\<close> calls external generation services, so
  its outcome comes from the environment (below); its \<^verbatim>\<open>validate_input\<close> is code of the
  repository and is modelled from it.
\<close>

datatype ad_module =
    DemandInteractModule
  | StoryBuilderModule
  | SceneDesignModule
  | StoryboardDesignModule
  | GridImageGenerateModule
  | ImageOptimizeModule
  | VideoGenerateModule

fun mod_name :: "ad_module \<Rightarrow> string" where
  "mod_name DemandInteractModule = ''demand_interact''"
| "mod_name StoryBuilderModule = ''story_builder''"
| "mod_name SceneDesignModule = ''scene_designer''"
| "mod_name StoryboardDesignModule = ''storyboard_designer''"
| "mod_name GridImageGenerateModule = ''grid_image_generator''"
| "mod_name ImageOptimizeModule = ''image_optimizer''"
| "mod_name VideoGenerateModule = ''video_generator''"

text \<open>\<^verbatim>\<open>key in x\<close> for a string \<open>key\<close>: membership in the keys of a dictionary, in the
  elements of a list, as a substring of a string; \<^verbatim>\<open>TypeError\<close> for anything else.\<close>

definition py_in :: "store \<Rightarrow> string \<Rightarrow> pyval \<Rightarrow> exn + bool" where
  "py_in h key x =
     (case x of
        PDict kvs \<Rightarrow> Inr (has_key kvs key)
      | PList xs \<Rightarrow> Inr (PStr key \<in> set xs)
      | PRef a \<Rightarrow> Inr (PStr key \<in> set (h a))
      | PStr s \<Rightarrow> Inr (sublist key s)
      | _ \<Rightarrow> Inl (TypeError ''argument is not iterable''))"

text \<open>\<^verbatim>\<open>all(key in x for key in keys)\<close>, stopping at the first \<^verbatim>\<open>False\<close>.\<close>

fun all_in :: "store \<Rightarrow> string list \<Rightarrow> pyval \<Rightarrow> exn + bool" where
  "all_in h [] x = Inr True"
| "all_in h (key # keys) x =
     (case py_in h key x of
        Inl e \<Rightarrow> Inl e
      | Inr b \<Rightarrow> if b then all_in h keys x else Inr False)"

text \<open>The seven \<^verbatim>\<open>validate_input\<close> methods.\<close>

fun validate_input :: "store \<Rightarrow> ad_module \<Rightarrow> dict \<Rightarrow> exn + bool" where
  "validate_input h DemandInteractModule context =
     (case getitem context ''initial_input'' of
        Inl e \<Rightarrow> Inl e
      | Inr initial_input \<Rightarrow> all_in h [''product_image'', ''character_setting''] initial_input)"
| "validate_input h StoryBuilderModule context =
     Inr (has_key context ''demand_interact_info'')"
| "validate_input h SceneDesignModule context =
     Inr (list_all (has_key context) [''story_builder_info'', ''demand_interact_info''])"
| "validate_input h StoryboardDesignModule context =
     Inr (list_all (has_key context) [''scene_designer_info'', ''story_builder_info''])"
| "validate_input h GridImageGenerateModule context =
     Inr (list_all (has_key context)
            [''storyboard_designer_info'', ''story_builder_info'', ''task_id''])"
| "validate_input h ImageOptimizeModule context =
     Inr (list_all (has_key context) [''grid_image_generator_info'', ''task_id''])"
| "validate_input h VideoGenerateModule context =
     Inr (list_all (has_key context)
            [''image_optimizer_info'', ''scene_designer_info'', ''task_id''])"

text \<open>What \<^verbatim>\<open>run\<close> hands back: the dictionary \<^verbatim>\<open>{"status", "result", "error"}\<close> of the
  \<^verbatim>\<open>AdModule\<close> contract, or an exception.\<close>

record module_result =
  status :: string
  result :: pyval
  error :: pyval

datatype run_outcome = Returns module_result | Raises exn

text \<open>\<^verbatim>\<open>_register_all_modules\<close>: the registry, keyed by \<^verbatim>\<open>module_name\<close> (here \<open>mod_name\<close>).\<close>

definition module_registry :: "(string \<times> ad_module) list" where
  "module_registry =
     map (\<lambda>m. (mod_name m, m))
       [DemandInteractModule, StoryBuilderModule, SceneDesignModule,
        StoryboardDesignModule, GridImageGenerateModule, ImageOptimizeModule,
        VideoGenerateModule]"

section \<open>The environment and the state of a control plane\<close>

text \<open>
  Everything the control plane takes from outside is an operation on a world \<open>'w\<close>:
  a module's \<^verbatim>\<open>run(task_id, context)\<close> (the \<^verbatim>\<open>run\<close> methods only read the context), the
  operator's answer to \<^verbatim>\<open>user_confirm(prompt)\<close> (the answer that ends its loop, or the
  exception \<^verbatim>\<open>input\<close> raises), the stripped text of the revision prompt
  (\<^verbatim>\<open>input(...).strip()\<close>), the clock (\<^verbatim>\<open>time.strftime\<close>) and \<^verbatim>\<open>generate_task_id\<close>.
  Console output and the creation of directories are not modelled.
\<close>

record 'w env =
  run_module :: "ad_module \<Rightarrow> pyval \<Rightarrow> dict \<Rightarrow> 'w \<Rightarrow> run_outcome \<times> 'w"
  user_confirm :: "string \<Rightarrow> 'w \<Rightarrow> (exn + bool) \<times> 'w"
  input_feedback :: "'w \<Rightarrow> (exn + string) \<times> 'w"
  strftime :: "'w \<Rightarrow> string \<times> 'w"
  generate_task_id :: "'w \<Rightarrow> string \<times> 'w"

text \<open>What was called, in order: \<^verbatim>\<open>validate_input(context)\<close> of the named module, and
  \<^verbatim>\<open>run(task_id, context)\<close> with what it handed back.\<close>

datatype event =
    CallValidate string dict
  | CallRun string pyval dict run_outcome

fun event_module :: "event \<Rightarrow> string" where
  "event_module (CallValidate n c) = n"
| "event_module (CallRun n t c r) = n"

fun event_context :: "event \<Rightarrow> dict" where
  "event_context (CallValidate n c) = c"
| "event_context (CallRun n t c r) = c"

text \<open>
  \<open>context_template\<close> is \<^verbatim>\<open>self.context_template\<close>; \<open>heap\<close> holds the list objects and
  \<open>next_ref\<close> is the next free reference; \<open>cur_context\<close> is the context object of the task
  at hand (every function of the control plane is handed this one object and mutates it in
  place); \<open>disk\<close> maps a path to the content of the file there.
\<close>

record 'w state =
  world :: 'w
  context_template :: dict
  heap :: store
  next_ref :: nat
  cur_context :: dict
  disk :: "string \<Rightarrow> dict option"
  trace :: "event list"

type_synonym ('w, 'a) prog = "'w state \<Rightarrow> (exn + 'a) \<times> 'w state"

definition ret :: "'a \<Rightarrow> ('w, 'a) prog" where
  "ret a = (\<lambda>s. (Inr a, s))"

definition raise :: "exn \<Rightarrow> ('w, 'a) prog" where
  "raise e = (\<lambda>s. (Inl e, s))"

definition lift :: "exn + 'a \<Rightarrow> ('w, 'a) prog" where
  "lift r = (\<lambda>s. (r, s))"

text \<open>Sequencing: an exception ends the sequence, the state reached stays.\<close>

definition pbind :: "('w, 'a) prog \<Rightarrow> ('a \<Rightarrow> ('w, 'b) prog) \<Rightarrow> ('w, 'b) prog" where
  "pbind m f = (\<lambda>s. case m s of (Inl e, s') \<Rightarrow> (Inl e, s') | (Inr a, s') \<Rightarrow> f a s')"

text \<open>\<^verbatim>\<open>try: m  except Exception as e: h\<close>.\<close>

definition catch :: "('w, 'a) prog \<Rightarrow> (exn \<Rightarrow> ('w, 'a) prog) \<Rightarrow> ('w, 'a) prog" where
  "catch m h = (\<lambda>s. case m s of (Inl e, s') \<Rightarrow> h e s' | (Inr a, s') \<Rightarrow> (Inr a, s'))"

definition get_context :: "('w, dict) prog" where
  "get_context = (\<lambda>s. (Inr (cur_context s), s))"

definition modify_context :: "(dict \<Rightarrow> dict) \<Rightarrow> ('w, unit) prog" where
  "modify_context f = (\<lambda>s. (Inr (), s\<lparr>cur_context := f (cur_context s)\<rparr>))"

text \<open>\<^verbatim>\<open>context[k]\<close>.\<close>

definition context_getitem :: "string \<Rightarrow> ('w, pyval) prog" where
  "context_getitem k = (\<lambda>s. (getitem (cur_context s) k, s))"

definition strftime_now :: "'w env \<Rightarrow> ('w, string) prog" where
  "strftime_now env =
     (\<lambda>s. case strftime env (world s) of (t, w') \<Rightarrow> (Inr t, s\<lparr>world := w'\<rparr>))"

text \<open>A new list object.\<close>

definition alloc_list :: "pyval list \<Rightarrow> ('w, pyval) prog" where
  "alloc_list xs =
     (\<lambda>s. (Inr (PRef (next_ref s)),
            s\<lparr>heap := (heap s)(next_ref s := xs), next_ref := Suc (next_ref s)\<rparr>))"

section \<open>The context store (\<^verbatim>\<open>ad_agent_core.py\<close>)\<close>

definition context_file :: "string \<Rightarrow> string" where
  "context_file task_id = path_join (path_join BASE_OUTPUT_DIR task_id) ''ad_context.json''"

text \<open>\<^verbatim>\<open>save_context(task_id, context)\<close>: the file is overwritten with the serialised context.\<close>

definition save_context :: "pyval \<Rightarrow> ('w, unit) prog" where
  "save_context task_id =
     (\<lambda>s. case task_id of
             PStr tid \<Rightarrow>
               (Inr (), s\<lparr>disk := (disk s)(context_file tid \<mapsto> snapshot (heap s) (cur_context s))\<rparr>)
           | _ \<Rightarrow> (Inl (TypeError ''expected str, bytes or os.PathLike object''), s))"

section \<open>The control plane (\<^verbatim>\<open>ad_control_plane.py\<close>)\<close>

subsection \<open>Message texts\<close>

text \<open>The fixed parts of the messages and prompts are Chinese text, given here by their
  UTF-8 bytes.\<close>

definition msg_module_open :: string where
  "msg_module_open =
     [CHR 0xE6, CHR 0xA8, CHR 0xA1, CHR 0xE5, CHR 0x9D, CHR 0x97, CHR 0xE3,
      CHR 0x80, CHR 0x90]"

definition msg_validate_tail :: string where
  "msg_validate_tail =
     [CHR 0xE3, CHR 0x80, CHR 0x91, CHR 0xE8, CHR 0xBE, CHR 0x93, CHR 0xE5,
      CHR 0x85, CHR 0xA5, CHR 0xE6, CHR 0xA0, CHR 0xA1, CHR 0xE9, CHR 0xAA,
      CHR 0x8C, CHR 0xE5, CHR 0xA4, CHR 0xB1, CHR 0xE8, CHR 0xB4, CHR 0xA5,
      CHR 0xEF, CHR 0xBC, CHR 0x8C, CHR 0xE4, CHR 0xB8, CHR 0x8A, CHR 0xE4,
      CHR 0xB8, CHR 0x8B, CHR 0xE6, CHR 0x96, CHR 0x87, CHR 0xE7, CHR 0xBC,
      CHR 0xBA, CHR 0xE5, CHR 0xA4, CHR 0xB1, CHR 0xE5, CHR 0xBF, CHR 0x85,
      CHR 0xE8, CHR 0xA6, CHR 0x81, CHR 0xE6, CHR 0x95, CHR 0xB0, CHR 0xE6,
      CHR 0x8D, CHR 0xAE]"

definition msg_run_tail :: string where
  "msg_run_tail =
     [CHR 0xE3, CHR 0x80, CHR 0x91, CHR 0xE6, CHR 0x89, CHR 0xA7, CHR 0xE8,
      CHR 0xA1, CHR 0x8C, CHR 0xE5, CHR 0xBC, CHR 0x82, CHR 0xE5, CHR 0xB8,
      CHR 0xB8, CHR 0xEF, CHR 0xBC, CHR 0x9A]"

definition msg_task_exception :: string where
  "msg_task_exception =
     [CHR 0xE5, CHR 0xB9, CHR 0xBF, CHR 0xE5, CHR 0x91, CHR 0x8A, CHR 0xE4,
      CHR 0xBB, CHR 0xBB, CHR 0xE5, CHR 0x8A, CHR 0xA1, CHR 0xE6, CHR 0x89,
      CHR 0xA7, CHR 0xE8, CHR 0xA1, CHR 0x8C, CHR 0xE5, CHR 0xBC, CHR 0x82,
      CHR 0xE5, CHR 0xB8, CHR 0xB8, CHR 0xEF, CHR 0xBC, CHR 0x9A]"

definition prompt_story :: string where
  "prompt_story =
     [CHR 0xE6, CHR 0x98, CHR 0xAF, CHR 0xE5, CHR 0x90, CHR 0xA6, CHR 0xE7,
      CHR 0xA1, CHR 0xAE, CHR 0xE8, CHR 0xAE, CHR 0xA4, CHR 0xE5, CHR 0xBD,
      CHR 0x93, CHR 0xE5, CHR 0x89, CHR 0x8D, CHR 0xE6, CHR 0x95, CHR 0x85,
      CHR 0xE4, CHR 0xBA, CHR 0x8B, CHR 0xE7, CHR 0xBA, CHR 0xBF, CHR 0xE5,
      CHR 0x92, CHR 0x8C, CHR 0xE8, CHR 0xA7, CHR 0x86, CHR 0xE8, CHR 0xA7,
      CHR 0x89, CHR 0xE9, CHR 0xA3, CHR 0x8E, CHR 0xE6, CHR 0xA0, CHR 0xBC,
      CHR 0xEF, CHR 0xBC, CHR 0x9F]"

definition prompt_storyboard :: string where
  "prompt_storyboard =
     [CHR 0xE6, CHR 0x98, CHR 0xAF, CHR 0xE5, CHR 0x90, CHR 0xA6, CHR 0xE7,
      CHR 0xA1, CHR 0xAE, CHR 0xE8, CHR 0xAE, CHR 0xA4, CHR 0xE5, CHR 0xBD,
      CHR 0x93, CHR 0xE5, CHR 0x89, CHR 0x8D, CHR 0xE6, CHR 0x89, CHR 0x80,
      CHR 0xE6, CHR 0x9C, CHR 0x89, CHR 0xE5, CHR 0x88, CHR 0x86, CHR 0xE9,
      CHR 0x95, CHR 0x9C, CHR 0xE8, CHR 0xAE, CHR 0xBE, CHR 0xE8, CHR 0xAE,
      CHR 0xA1, CHR 0xEF, CHR 0xBC, CHR 0x9F]"

text \<open>The message of a failed input validation, and of an exception out of \<^verbatim>\<open>run\<close>.\<close>

definition validate_error_msg :: "string \<Rightarrow> string" where
  "validate_error_msg name = msg_module_open @ name @ msg_validate_tail"

definition run_error_msg :: "string \<Rightarrow> exn \<Rightarrow> string" where
  "run_error_msg name e = msg_module_open @ name @ msg_run_tail @ str_exn e"

subsection \<open>Construction and task initialisation\<close>

text \<open>\<^verbatim>\<open>self.context_template\<close> as \<^verbatim>\<open>__init__\<close> builds it; \<open>elog\<close> is the reference of the
  list object created for \<^verbatim>\<open>"error_log": []\<close>.\<close>

definition initial_template :: "nat \<Rightarrow> dict" where
  "initial_template elog =
     [(''task_id'', PNone),
      (''task_status'', PStr ''init''),
      (''current_step'', PNone),
      (''progress'', PFloat 0),
      (''create_time'', PNone),
      (''update_time'', PNone),
      (''initial_input'', PDict []),
      (''demand_info'', PDict []),
      (''story_info'', PDict []),
      (''scene_info'', PDict []),
      (''storyboard_info'', PDict []),
      (''grid_image_info'', PDict []),
      (''hd_image_info'', PDict []),
      (''video_info'', PDict []),
      (''module_status'', PDict (map (\<lambda>m. (m, PStr ''idle'')) schedule_flow)),
      (''error_log'', PRef elog)]"

text \<open>\<^verbatim>\<open>AdMCPControlPlane()\<close> in a world \<open>w\<close> with no task files yet.\<close>

definition new_control_plane :: "'w \<Rightarrow> 'w state" where
  "new_control_plane w =
     \<lparr>world = w, context_template = initial_template 0, heap = (\<lambda>a. []), next_ref = 1,
      cur_context = [], disk = Map.empty, trace = []\<rparr>"

definition new_task_id :: "'w env \<Rightarrow> ('w, string) prog" where
  "new_task_id env =
     (\<lambda>s. case generate_task_id env (world s) of (t, w') \<Rightarrow> (Inr t, s\<lparr>world := w'\<rparr>))"

text \<open>\<^verbatim>\<open>init_ad_task\<close>. \<^verbatim>\<open>self.context_template.copy()\<close> is a shallow copy: the new
  dictionary holds the template's values, among them the reference to the template's
  error-log list. The new dictionary becomes the context object of the task.\<close>

definition init_ad_task :: "'w env \<Rightarrow> pyval \<Rightarrow> ('w, dict) prog" where
  "init_ad_task env initial_input =
     pbind (new_task_id env) (\<lambda>task_id.
     pbind (strftime_now env) (\<lambda>create_time.
     pbind (\<lambda>s. (Inr (), s\<lparr>cur_context := context_template s\<rparr>)) (\<lambda>_.
     pbind (modify_context (\<lambda>context. dict_update context
              [(''task_id'', PStr task_id),
               (''create_time'', PStr create_time),
               (''update_time'', PStr create_time),
               (''initial_input'', initial_input),
               (''task_status'', PStr ''processing'')])) (\<lambda>_.
     pbind (save_context (PStr task_id)) (\<lambda>_.
     get_context)))))"

subsection \<open>Updating the context\<close>

text \<open>\<^verbatim>\<open>_update_context(context, update_data)\<close>; it returns the object it was given.\<close>

definition update_context :: "'w env \<Rightarrow> dict \<Rightarrow> ('w, unit) prog" where
  "update_context env update_data =
     pbind (modify_context (\<lambda>context. dict_update context update_data)) (\<lambda>_.
     pbind (strftime_now env) (\<lambda>t.
     pbind (modify_context (AList.update ''update_time'' (PStr t))) (\<lambda>_.
     pbind (context_getitem ''task_id'') (\<lambda>task_id.
     save_context task_id))))"

text \<open>\<^verbatim>\<open>{**context["module_status"], module_name: v}\<close>: a new dictionary.\<close>

definition module_status_with :: "string \<Rightarrow> string \<Rightarrow> ('w, pyval) prog" where
  "module_status_with name v =
     pbind (context_getitem ''module_status'') (\<lambda>ms.
     case ms of
       PDict kvs \<Rightarrow> ret (PDict (AList.update name (PStr v) kvs))
     | _ \<Rightarrow> raise (TypeError ''object is not a mapping''))"

definition error_entry :: "string \<Rightarrow> pyval \<Rightarrow> string \<Rightarrow> pyval" where
  "error_entry step err t = PDict [(''step'', PStr step), (''error'', err), (''time'', PStr t)]"

text \<open>\<^verbatim>\<open>context["error_log"] + [{"step": .., "error": .., "time": time.strftime(..)}]\<close>:
  a new list object; the old one is left as it is.\<close>

definition error_log_plus :: "'w env \<Rightarrow> string \<Rightarrow> pyval \<Rightarrow> ('w, pyval) prog" where
  "error_log_plus env step err =
     pbind (context_getitem ''error_log'') (\<lambda>elog.
     pbind (strftime_now env) (\<lambda>t.
     case elog of
       PRef a \<Rightarrow> (\<lambda>s. alloc_list (heap s a @ [error_entry step err t]) s)
     | PList xs \<Rightarrow> alloc_list (xs @ [error_entry step err t])
     | _ \<Rightarrow> raise (TypeError ''unsupported operand type(s) for +'')))"

text \<open>\<^verbatim>\<open>context["error_log"].append({"step": .., "error": .., "time": time.strftime(..)})\<close>:
  the list object that the context refers to is changed in place, for everything that
  refers to it.\<close>

definition error_log_append :: "'w env \<Rightarrow> string \<Rightarrow> pyval \<Rightarrow> ('w, unit) prog" where
  "error_log_append env step err =
     pbind (context_getitem ''error_log'') (\<lambda>elog.
     case elog of
       PRef a \<Rightarrow>
         pbind (strftime_now env) (\<lambda>t.
         (\<lambda>s. (Inr (), s\<lparr>heap := (heap s)(a := heap s a @ [error_entry step err t])\<rparr>)))
     | PList xs \<Rightarrow>
         pbind (strftime_now env) (\<lambda>t.
         modify_context (AList.update ''error_log'' (PList (xs @ [error_entry step err t]))))
     | _ \<Rightarrow> raise (PyException ''object has no attribute append''))"

subsection \<open>Dispatching one module\<close>

definition registry_getitem :: "string \<Rightarrow> ('w, ad_module) prog" where
  "registry_getitem name =
     lift (case map_of module_registry name of
             None \<Rightarrow> Inl (KeyError name)
           | Some m \<Rightarrow> Inr m)"

text \<open>\<^verbatim>\<open>module.validate_input(context)\<close>, recorded in the trace.\<close>

definition call_validate_input :: "ad_module \<Rightarrow> ('w, bool) prog" where
  "call_validate_input m =
     (\<lambda>s. (validate_input (heap s) m (cur_context s),
            s\<lparr>trace := trace s @ [CallValidate (mod_name m) (cur_context s)]\<rparr>))"

text \<open>\<^verbatim>\<open>module.run(task_id, context)\<close>, recorded in the trace.\<close>

definition call_run :: "'w env \<Rightarrow> ad_module \<Rightarrow> pyval \<Rightarrow> ('w, module_result) prog" where
  "call_run env m task_id =
     (\<lambda>s. case run_module env m task_id (cur_context s) (world s) of
             (out, w') \<Rightarrow>
               (case out of Returns r \<Rightarrow> Inr r | Raises e \<Rightarrow> Inl e,
                s\<lparr>world := w',
                  trace := trace s @ [CallRun (mod_name m) task_id (cur_context s) out]\<rparr>))"

definition failed_outcome :: "string \<Rightarrow> module_result" where
  "failed_outcome error_msg = \<lparr>status = ''failed'', result = PDict [], error = PStr error_msg\<rparr>"

text \<open>The update made when a dispatch fails before or outside \<^verbatim>\<open>run\<close> (the same
  statement after a failed validation and in the exception handler):
  \<^verbatim>\<open>self._update_context(context, {"module_status": {**.., module_name: "failed"},
  "error_log": context["error_log"] + [{..}]})\<close>.\<close>

definition mark_failed :: "'w env \<Rightarrow> string \<Rightarrow> string \<Rightarrow> ('w, unit) prog" where
  "mark_failed env name error_msg =
     pbind (module_status_with name ''failed'') (\<lambda>ms.
     pbind (error_log_plus env name (PStr error_msg)) (\<lambda>elog.
     update_context env [(''module_status'', ms), (''error_log'', elog)]))"

text \<open>Step 2 of \<^verbatim>\<open>_dispatch_module\<close>: the module becomes busy and the progress is set.\<close>

definition mark_busy :: "'w env \<Rightarrow> string \<Rightarrow> ('w, unit) prog" where
  "mark_busy env name =
     pbind (module_status_with name ''busy'') (\<lambda>ms.
     pbind (lift (calculate_progress name)) (\<lambda>p.
     update_context env
       [(''current_step'', PStr name), (''module_status'', ms), (''progress'', PFloat p)]))"

text \<open>The update after \<^verbatim>\<open>run\<close> has returned.\<close>

definition record_status :: "'w env \<Rightarrow> string \<Rightarrow> string \<Rightarrow> ('w, unit) prog" where
  "record_status env name new_module_status =
     pbind (module_status_with name new_module_status) (\<lambda>ms.
     pbind (strftime_now env) (\<lambda>t.
     update_context env [(''module_status'', ms), (''update_time'', PStr t)]))"

text \<open>The error-log entry for a module that returned \<^verbatim>\<open>"failed"\<close>: appended in place, then
  \<^verbatim>\<open>save_context(task_id, context)\<close>.\<close>

definition log_failure :: "'w env \<Rightarrow> pyval \<Rightarrow> string \<Rightarrow> pyval \<Rightarrow> ('w, unit) prog" where
  "log_failure env task_id name err =
     pbind (error_log_append env name err) (\<lambda>_.
     save_context task_id)"

text \<open>The body of the \<^verbatim>\<open>try\<close> block of \<^verbatim>\<open>_dispatch_module\<close>.\<close>

definition run_and_record ::
  "'w env \<Rightarrow> ad_module \<Rightarrow> pyval \<Rightarrow> string \<Rightarrow> ('w, module_result) prog" where
  "run_and_record env m task_id name =
     pbind (call_run env m task_id) (\<lambda>module_result.
     let new_module_status = (if status module_result = ''success'' then ''success'' else ''failed'')
     in
     pbind (record_status env name new_module_status) (\<lambda>_.
     pbind (if status module_result = ''failed''
            then log_failure env task_id name (error module_result)
            else ret ()) (\<lambda>_.
     ret module_result)))"

text \<open>Its \<^verbatim>\<open>except Exception as e\<close> handler.\<close>

definition run_failed :: "'w env \<Rightarrow> string \<Rightarrow> exn \<Rightarrow> ('w, module_result) prog" where
  "run_failed env name e =
     (let error_msg = run_error_msg name e in
      pbind (mark_failed env name error_msg) (\<lambda>_.
      ret (failed_outcome error_msg)))"

text \<open>\<^verbatim>\<open>_dispatch_module(module_name, context)\<close>.\<close>

definition dispatch_module :: "'w env \<Rightarrow> string \<Rightarrow> ('w, module_result) prog" where
  "dispatch_module env name =
     pbind (context_getitem ''task_id'') (\<lambda>task_id.
     pbind (registry_getitem name) (\<lambda>m.
     pbind (call_validate_input m) (\<lambda>valid.
     if \<not> valid then
       (let error_msg = validate_error_msg name in
        pbind (mark_failed env name error_msg) (\<lambda>_.
        ret (failed_outcome error_msg)))
     else
       pbind (mark_busy env name) (\<lambda>_.
       catch (run_and_record env m task_id name) (run_failed env name)))))"

subsection \<open>Running a task\<close>

text \<open>\<^verbatim>\<open>_check_pause_node\<close>.\<close>

definition check_pause_node :: "string \<Rightarrow> bool" where
  "check_pause_node name = (name \<in> set PAUSE_NODES)"

definition call_user_confirm :: "'w env \<Rightarrow> string \<Rightarrow> ('w, bool) prog" where
  "call_user_confirm env prompt =
     (\<lambda>s. case user_confirm env prompt (world s) of (r, w') \<Rightarrow> (r, s\<lparr>world := w'\<rparr>))"

definition call_input_feedback :: "'w env \<Rightarrow> ('w, string) prog" where
  "call_input_feedback env =
     (\<lambda>s. case input_feedback env (world s) of (r, w') \<Rightarrow> (r, s\<lparr>world := w'\<rparr>))"

text \<open>The failure record that \<^verbatim>\<open>run_ad_task\<close> returns from inside its loop.\<close>

definition failure_result :: "pyval \<Rightarrow> string \<Rightarrow> pyval \<Rightarrow> dict \<Rightarrow> dict" where
  "failure_result task_id name err final_context =
     [(''code'', PInt 500),
      (''task_id'', task_id),
      (''status'', PStr ''failed''),
      (''current_step'', PStr name),
      (''error'', err),
      (''context'', PDict final_context)]"

text \<open>The update that ends a task whose step failed in the loop:
  \<^verbatim>\<open>self._update_context(context, {"task_status": "failed",
  "error_log": context["error_log"] + [{..}]})\<close>.\<close>

definition fail_task :: "'w env \<Rightarrow> string \<Rightarrow> pyval \<Rightarrow> ('w, unit) prog" where
  "fail_task env name err =
     pbind (error_log_plus env name err) (\<lambda>elog.
     update_context env [(''task_status'', PStr ''failed''), (''error_log'', elog)])"

text \<open>\<^verbatim>\<open>self._update_context(context, {module_name + "_info": module_result["result"]})\<close>.\<close>

definition store_result :: "'w env \<Rightarrow> string \<Rightarrow> pyval \<Rightarrow> ('w, unit) prog" where
  "store_result env name r = update_context env [(name @ ''_info'', r)]"

text \<open>\<^verbatim>\<open>context["user_feedback"] = user_feedback\<close> when the text is not empty, and
  \<^verbatim>\<open>if "user_feedback" in context: del context["user_feedback"]\<close>. Both change the context
  object directly.\<close>

definition inject_feedback :: "string \<Rightarrow> ('w, unit) prog" where
  "inject_feedback user_feedback =
     (if user_feedback \<noteq> []
      then modify_context (AList.update ''user_feedback'' (PStr user_feedback))
      else ret ())"

definition clear_feedback :: "('w, unit) prog" where
  "clear_feedback =
     modify_context (\<lambda>context.
       if has_key context ''user_feedback''
       then AList.delete ''user_feedback'' context else context)"

text \<open>The revision branch of a pause node: the operator declined. The feedback is put
  into the context object directly, the module is dispatched again, and the feedback is
  taken out again.\<close>

definition revise :: "'w env \<Rightarrow> pyval \<Rightarrow> string \<Rightarrow> ('w, dict option) prog" where
  "revise env task_id name =
     pbind (call_input_feedback env) (\<lambda>user_feedback.
     pbind (inject_feedback user_feedback) (\<lambda>_.
     pbind (dispatch_module env name) (\<lambda>module_result.
     pbind clear_feedback (\<lambda>_.
     if status module_result = ''failed'' then
       pbind (update_context env [(''task_status'', PStr ''failed'')]) (\<lambda>_.
       pbind get_context (\<lambda>final_context.
       ret (Some (failure_result task_id name (error module_result) final_context))))
     else
       pbind (store_result env name (result module_result)) (\<lambda>_.
       ret None)))))"

text \<open>One round of the loop of \<^verbatim>\<open>run_ad_task\<close>: \<open>Some r\<close> when the round returns
  \<open>r\<close> from \<^verbatim>\<open>run_ad_task\<close>, \<open>None\<close> when the loop goes on.\<close>

definition run_step :: "'w env \<Rightarrow> pyval \<Rightarrow> string \<Rightarrow> ('w, dict option) prog" where
  "run_step env task_id name =
     pbind (dispatch_module env name) (\<lambda>module_result.
     if status module_result = ''failed'' then
       pbind (fail_task env name (error module_result)) (\<lambda>_.
       pbind get_context (\<lambda>final_context.
       ret (Some (failure_result task_id name (error module_result) final_context))))
     else
       pbind (store_result env name (result module_result)) (\<lambda>_.
       if check_pause_node name then
         (let prompt = (if name = ''story_builder'' then prompt_story else prompt_storyboard)
          in
          pbind (call_user_confirm env prompt) (\<lambda>confirmed.
          if confirmed then ret None else revise env task_id name))
       else ret None))"

primrec run_flow :: "'w env \<Rightarrow> pyval \<Rightarrow> string list \<Rightarrow> ('w, dict option) prog" where
  "run_flow env task_id [] = ret None"
| "run_flow env task_id (name # names) =
     pbind (run_step env task_id name) (\<lambda>r.
     case r of
       Some res \<Rightarrow> ret (Some res)
     | None \<Rightarrow> run_flow env task_id names)"

text \<open>\<^verbatim>\<open>x[key]\<close> for a string \<open>key\<close>.\<close>

definition py_subscript :: "pyval \<Rightarrow> string \<Rightarrow> exn + pyval" where
  "py_subscript x key =
     (case x of
        PDict kvs \<Rightarrow> getitem kvs key
      | PList xs \<Rightarrow> Inl (TypeError ''list indices must be integers or slices, not str'')
      | PRef a \<Rightarrow> Inl (TypeError ''list indices must be integers or slices, not str'')
      | PStr s \<Rightarrow> Inl (TypeError ''string indices must be integers'')
      | _ \<Rightarrow> Inl (TypeError ''object is not subscriptable''))"

definition task_dir_of :: "pyval \<Rightarrow> exn + pyval" where
  "task_dir_of task_id =
     (case task_id of
        PStr tid \<Rightarrow> Inr (PStr (path_join BASE_OUTPUT_DIR tid))
      | _ \<Rightarrow> Inl (TypeError ''expected str, bytes or os.PathLike object''))"

text \<open>The end of \<^verbatim>\<open>run_ad_task\<close>, after the loop.\<close>

definition finish_task :: "'w env \<Rightarrow> pyval \<Rightarrow> ('w, dict) prog" where
  "finish_task env task_id =
     pbind (update_context env
              [(''task_status'', PStr ''finished''), (''progress'', PFloat 100)]) (\<lambda>_.
     pbind get_context (\<lambda>final_context.
     pbind (lift (getitem final_context ''video_info'')) (\<lambda>video_info.
     pbind (lift (py_subscript video_info ''final_video_path'')) (\<lambda>final_video_path.
     pbind (lift (task_dir_of task_id)) (\<lambda>task_dir.
     ret [(''code'', PInt 200),
          (''task_id'', task_id),
          (''status'', PStr ''success''),
          (''final_video_path'', final_video_path),
          (''task_dir'', task_dir),
          (''context'', PDict final_context)])))))"

text \<open>\<^verbatim>\<open>run_ad_task(initial_input)\<close>. The handler returns the context object as it is when
  the exception arrives.\<close>

definition run_ad_task :: "'w env \<Rightarrow> pyval \<Rightarrow> ('w, dict) prog" where
  "run_ad_task env initial_input =
     catch
       (pbind (init_ad_task env initial_input) (\<lambda>_.
        pbind (context_getitem ''task_id'') (\<lambda>task_id.
        pbind (run_flow env task_id schedule_flow) (\<lambda>r.
        case r of
          Some res \<Rightarrow> ret res
        | None \<Rightarrow> finish_task env task_id))))
       (\<lambda>e.
        pbind get_context (\<lambda>context.
        ret [(''code'', PInt 500),
             (''status'', PStr ''failed''),
             (''error'', PStr (msg_task_exception @ str_exn e)),
             (''context'', PDict context)]))"

section \<open>Notions used in the properties\<close>

text \<open>The progress formula as the specification words it:
  \<^verbatim>\<open>round((index + 1) / 7 * 100, 2)\<close> for the 0-based position of a step.\<close>

definition spec_progress :: "nat \<Rightarrow> rat" where
  "spec_progress index = py_round (of_nat (index + 1) / 7 * 100) 2"

text \<open>A context as \<^verbatim>\<open>init_ad_task\<close> makes it and the control plane keeps it: the task id is a
  string, \<^verbatim>\<open>module_status\<close> is a dictionary, \<^verbatim>\<open>error_log\<close> refers to a list object.\<close>

definition task_ok :: "string \<Rightarrow> 'w state \<Rightarrow> bool" where
  "task_ok tid s \<longleftrightarrow>
     map_of (cur_context s) ''task_id'' = Some (PStr tid) \<and>
     (\<exists>kvs. map_of (cur_context s) ''module_status'' = Some (PDict kvs)) \<and>
     (\<exists>a. map_of (cur_context s) ''error_log'' = Some (PRef a))"

text \<open>The error log of the context: the content of the list object it refers to.\<close>

definition error_log_of :: "'w state \<Rightarrow> pyval list" where
  "error_log_of s = (case map_of (cur_context s) ''error_log'' of Some (PRef a) \<Rightarrow> heap s a | _ \<Rightarrow> [])"

text \<open>The file of the task holds the context as it is in memory.\<close>

definition in_sync :: "string \<Rightarrow> 'w state \<Rightarrow> bool" where
  "in_sync tid s \<longleftrightarrow> disk s (context_file tid) = Some (snapshot (heap s) (cur_context s))"

text \<open>\<^verbatim>\<open>context["module_status"][n]\<close>, when it is there.\<close>

definition mstat :: "'w state \<Rightarrow> string \<Rightarrow> pyval option" where
  "mstat s n = (case map_of (cur_context s) ''module_status'' of Some (PDict kvs) \<Rightarrow> map_of kvs n | _ \<Rightarrow> None)"

text \<open>What a piece of bookkeeping leaves as it is: the template, the trace and every slot of
  the context outside \<open>K\<close>; \<open>kept_slots\<close> says nothing about the trace.\<close>

definition kept :: "string set \<Rightarrow> 'w state \<Rightarrow> 'w state \<Rightarrow> bool" where
  "kept K s s' \<longleftrightarrow>
     context_template s' = context_template s \<and> trace s' = trace s \<and>
     (\<forall>k. k \<notin> K \<longrightarrow> map_of (cur_context s') k = map_of (cur_context s) k)"

definition kept_slots :: "string set \<Rightarrow> 'w state \<Rightarrow> 'w state \<Rightarrow> bool" where
  "kept_slots K s s' \<longleftrightarrow>
     context_template s' = context_template s \<and>
     (\<forall>k. k \<notin> K \<longrightarrow> map_of (cur_context s') k = map_of (cur_context s) k)"

text \<open>The slots of the context that \<^verbatim>\<open>_dispatch_module\<close> writes.\<close>

definition dispatch_keys :: "string set" where
  "dispatch_keys = {''module_status'', ''error_log'', ''update_time'', ''current_step'', ''progress''}"

text \<open>The states a dispatch goes through: after \<^verbatim>\<open>validate_input\<close> was called, after the
  module was marked busy, and after \<^verbatim>\<open>run\<close> came back with \<open>run_outcome_at\<close>. The context
  handed to \<^verbatim>\<open>run\<close> is the one of \<open>busy_state\<close>.\<close>

definition validated :: "ad_module \<Rightarrow> 'w state \<Rightarrow> 'w state" where
  "validated m s = s\<lparr>trace := trace s @ [CallValidate (mod_name m) (cur_context s)]\<rparr>"

definition busy_state :: "'w env \<Rightarrow> ad_module \<Rightarrow> 'w state \<Rightarrow> 'w state" where
  "busy_state env m s = snd (mark_busy env (mod_name m) (validated m s))"

definition run_outcome_at :: "'w env \<Rightarrow> ad_module \<Rightarrow> pyval \<Rightarrow> 'w state \<Rightarrow> run_outcome" where
  "run_outcome_at env m task_id s =
     fst (run_module env m task_id (cur_context (busy_state env m s)) (world (busy_state env m s)))"

definition ran_state :: "'w env \<Rightarrow> ad_module \<Rightarrow> pyval \<Rightarrow> 'w state \<Rightarrow> 'w state" where
  "ran_state env m task_id s =
     (busy_state env m s)
       \<lparr>world := snd (run_module env m task_id (cur_context (busy_state env m s)) (world (busy_state env m s))),
        trace := trace (busy_state env m s) @
          [CallRun (mod_name m) task_id (cur_context (busy_state env m s)) (run_outcome_at env m task_id s)]\<rparr>"

text \<open>What every dispatch of \<open>name\<close> guarantees, from a state \<open>s\<close> with a well-formed context,
  whatever the module and the environment do.\<close>

definition dispatch_post ::
  "string \<Rightarrow> string \<Rightarrow> 'w state \<Rightarrow> exn + module_result \<Rightarrow> 'w state \<Rightarrow> bool" where
  "dispatch_post tid name s r s' \<longleftrightarrow>
     kept_slots dispatch_keys s s' \<and>
     (\<forall>n. n \<noteq> name \<longrightarrow> mstat s' n = mstat s n) \<and>
     next_ref s \<le> next_ref s' \<and>
     (\<exists>evs. trace s' = trace s @ evs \<and>
        (\<forall>e\<in>set evs. event_module e = name \<and>
           (\<forall>k. k \<notin> dispatch_keys \<longrightarrow> map_of (event_context e) k = map_of (cur_context s) k))) \<and>
     (\<forall>out. r = Inr out \<longrightarrow>
        task_ok tid s' \<and> in_sync tid s' \<and>
        (status out = ''failed'' \<longrightarrow>
           mstat s' name = Some (PStr ''failed'') \<and>
           (\<exists>t. error_log_of s' = error_log_of s @ [error_entry name (error out) t])) \<and>
        (status out \<noteq> ''failed'' \<longrightarrow> error_log_of s' = error_log_of s))"

text \<open>A \<^verbatim>\<open>run\<close> that fails: it raises, or it returns \<^verbatim>\<open>{"status": "failed", ..}\<close>; and what the
  dispatcher hands back for it.\<close>

fun run_fails :: "run_outcome \<Rightarrow> bool" where
  "run_fails (Raises e) = True"
| "run_fails (Returns r) = (status r = ''failed'')"

fun failed_result_of :: "string \<Rightarrow> run_outcome \<Rightarrow> module_result" where
  "failed_result_of name (Raises e) =
     \<lparr>status = ''failed'', result = PDict [], error = PStr (run_error_msg name e)\<rparr>"
| "failed_result_of name (Returns r) = r"

text \<open>Sample data for the worked instances: an initial input, the context of a new task, a
  control plane holding it, the same with the result of the first step stored, and an
  environment whose modules raise.\<close>

definition sample_input :: pyval where
  "sample_input = PDict [(''product_image'', PStr ''p.jpg''), (''character_setting'', PStr ''c.jpg'')]"

definition sample_context :: dict where
  "sample_context =
     dict_update (initial_template 0)
       [(''task_id'', PStr ''a1b2c3d4''),
        (''create_time'', PStr ''2026-01-01 00:00:00''),
        (''update_time'', PStr ''2026-01-01 00:00:00''),
        (''initial_input'', sample_input),
        (''task_status'', PStr ''processing'')]"

definition sample_state :: "unit state" where
  "sample_state = (new_control_plane ())\<lparr>cur_context := sample_context\<rparr>"

definition raising_env :: "unit env" where
  "raising_env =
     \<lparr>run_module = (\<lambda>m task_id c w. (Raises (PyException ''service unavailable''), w)),
      user_confirm = (\<lambda>prompt w. (Inr True, w)),
      input_feedback = (\<lambda>w. (Inr [], w)),
      strftime = (\<lambda>w. (''2026-01-01 00:00:00'', w)),
      generate_task_id = (\<lambda>w. (''a1b2c3d4'', w))\<rparr>"

definition story_ready_state :: "unit state" where
  "story_ready_state =
     sample_state\<lparr>cur_context := AList.update ''demand_interact_info'' (PDict []) sample_context\<rparr>"

text \<open>What a dispatch of \<open>name\<close> hands back, read off the last call it made: the failed
  outcome of a validation that said no, or the outcome of \<^verbatim>\<open>run\<close>.\<close>

fun outcome_for :: "string \<Rightarrow> event \<Rightarrow> module_result" where
  "outcome_for name (CallValidate n c) = failed_outcome (validate_error_msg name)"
| "outcome_for name (CallRun n t c out) = failed_result_of name out"

text \<open>The slots of the context that one round of the loop of \<^verbatim>\<open>run_ad_task\<close> writes.\<close>

definition step_keys :: "string \<Rightarrow> string set" where
  "step_keys name = dispatch_keys \<union> {''task_status'', ''user_feedback'', name @ ''_info''}"

text \<open>What one round of the loop for the step \<open>name\<close> leaves as it is: the template, the slots
  outside \<open>K\<close>, the status of every other module; and it calls no other module.\<close>

definition step_frame :: "string set \<Rightarrow> string \<Rightarrow> 'w state \<Rightarrow> 'w state \<Rightarrow> bool" where
  "step_frame K name s s' \<longleftrightarrow>
     kept_slots K s s' \<and>
     (\<forall>n. n \<noteq> name \<longrightarrow> mstat s' n = mstat s n) \<and>
     (\<exists>evs. trace s' = trace s @ evs \<and> (\<forall>e\<in>set evs. event_module e = name))"

text \<open>What one round of the loop guarantees, from a well-formed context: when it returns, the
  file holds the context; when the loop goes on, the result of the step is stored; when it
  returns a failure record, the record names the step and the error of the failed dispatch,
  and the task and the module are marked failed.\<close>

definition step_post ::
  "string \<Rightarrow> string \<Rightarrow> 'w state \<Rightarrow> exn + dict option \<Rightarrow> 'w state \<Rightarrow> bool" where
  "step_post tid name s r s' \<longleftrightarrow>
     step_frame (step_keys name) name s s' \<and>
     (\<forall>x. r = Inr x \<longrightarrow>
        in_sync tid s' \<and>
        (map_of (cur_context s) ''user_feedback'' = None \<longrightarrow>
         map_of (cur_context s') ''user_feedback'' = None)) \<and>
     (r = Inr None \<longrightarrow> task_ok tid s' \<and> map_of (cur_context s') (name @ ''_info'') \<noteq> None) \<and>
     (\<forall>res. r = Inr (Some res) \<longrightarrow>
        res = failure_result (PStr tid) name (error (outcome_for name (last (trace s'))))
                (cur_context s') \<and>
        status (outcome_for name (last (trace s'))) = ''failed'' \<and>
        map_of (cur_context s') ''task_status'' = Some (PStr ''failed'') \<and>
        mstat s' name = Some (PStr ''failed''))"


text \<open>The state in which a revision dispatches the module again: the operator's text has
  been read and, when it is not empty, put into the context.\<close>

definition revision_state :: "'w env \<Rightarrow> string \<Rightarrow> 'w state \<Rightarrow> 'w state" where
  "revision_state env fb s = snd (inject_feedback fb (s\<lparr>world := snd (input_feedback env (world s))\<rparr>))"

text \<open>A control plane after the first step of the sample task has stored its result.\<close>

definition synced_state :: "unit state" where
  "synced_state = snd (store_result raising_env ''demand_interact'' (PDict []) sample_state)"

text \<open>The calls made to the module \<open>n\<close> so far.\<close>

definition events_of :: "string \<Rightarrow> 'w state \<Rightarrow> event list" where
  "events_of n s = filter (\<lambda>e. event_module e = n) (trace s)"

text \<open>The slots of the context that the loop of \<^verbatim>\<open>run_ad_task\<close> writes for the steps
  \<open>names\<close>.\<close>

definition flow_keys :: "string list \<Rightarrow> string set" where
  "flow_keys names =
     dispatch_keys \<union> {''task_status'', ''user_feedback''} \<union> (\<lambda>n. n @ ''_info'') ` set names"

text \<open>What the loop over the steps \<open>names\<close> guarantees, from a well-formed context: slots
  outside \<open>flow_keys\<close> and modules outside \<open>names\<close> are left alone; when the loop runs to its
  end the context is still well formed; when it returns a failure record, the record is 
  that of a step \<open>m\<close> of \<open>names\<close> whose dispatch failed, the task and that module are marked failed,
  the file holds the context, and the steps after \<open>m\<close> were not touched: their status is as
  before and no call was made to them.\<close>

definition flow_post ::
  "string \<Rightarrow> string list \<Rightarrow> 'w state \<Rightarrow> exn + dict option \<Rightarrow> 'w state \<Rightarrow> bool" where
  "flow_post tid names s r s' \<longleftrightarrow>
     kept_slots (flow_keys names) s s' \<and>
     (\<forall>n. n \<notin> set names \<longrightarrow> mstat s' n = mstat s n \<and> events_of n s' = events_of n s) \<and>
     (r = Inr None \<longrightarrow> task_ok tid s') \<and>
     (\<forall>res. r = Inr (Some res) \<longrightarrow>
        in_sync tid s' \<and>
        (\<exists>pre m post. names = pre @ m # post \<and>
           res = failure_result (PStr tid) m (error (outcome_for m (last (trace s')))) (cur_context s') \<and>
           status (outcome_for m (last (trace s'))) = ''failed'' \<and>
           map_of (cur_context s') ''task_status'' = Some (PStr ''failed'') \<and>
           mstat s' m = Some (PStr ''failed'') \<and>
           (\<forall>n\<in>set post. mstat s' n = mstat s n \<and> events_of n s' = events_of n s)))"

text \<open>A task from its start: the identifier \<^verbatim>\<open>init_ad_task\<close> draws, the state it leaves, and
  the loop of \<^verbatim>\<open>run_ad_task\<close> run from there.\<close>

definition new_id :: "'w env \<Rightarrow> 'w state \<Rightarrow> string" where
  "new_id env s = fst (generate_task_id env (world s))"

definition started :: "'w env \<Rightarrow> pyval \<Rightarrow> 'w state \<Rightarrow> 'w state" where
  "started env initial_input s = snd (init_ad_task env initial_input s)"

definition looped :: "'w env \<Rightarrow> pyval \<Rightarrow> 'w state \<Rightarrow> (exn + dict option) \<times> 'w state" where
  "looped env initial_input s =
     run_flow env (PStr (new_id env s)) schedule_flow (started env initial_input s)"

text \<open>The record that the exception handler of \<^verbatim>\<open>run_ad_task\<close> returns.\<close>

definition exception_result :: "exn \<Rightarrow> dict \<Rightarrow> dict" where
  "exception_result e c =
     [(''code'', PInt 500),
      (''status'', PStr ''failed''),
      (''error'', PStr (msg_task_exception @ str_exn e)),
      (''context'', PDict c)]"


text \<open>A \<^verbatim>\<open>run\<close> that returns \<^verbatim>\<open>{"status": "success", ..}\<close>.\<close>

fun run_succeeds :: "run_outcome \<Rightarrow> bool" where
  "run_succeeds (Returns r) = (status r = ''success'')"
| "run_succeeds (Raises e) = False"

text \<open>The value of the \<^verbatim>\<open>progress\<close> slot lies in \<open>A\<close>; and a piece of the control plane
  that, run on a well-formed context, leaves the slot in \<open>A\<close> however it ends, and the
  context well formed when it returns.\<close>

definition prog_in :: "pyval option set \<Rightarrow> 'w state \<Rightarrow> bool" where
  "prog_in A s \<longleftrightarrow> map_of (cur_context s) ''progress'' \<in> A"

definition keeps :: "string \<Rightarrow> pyval option set \<Rightarrow> ('w, 'a) prog \<Rightarrow> bool" where
  "keeps tid A f \<longleftrightarrow>
     (\<forall>s. task_ok tid s \<and> prog_in A s \<longrightarrow>
          prog_in A (snd (f s)) \<and> (\<forall>a. fst (f s) = Inr a \<longrightarrow> task_ok tid (snd (f s))))"

text \<open>An environment whose modules all succeed and whose operator confirms.\<close>

definition succeeding_env :: "unit env" where
  "succeeding_env =
     \<lparr>run_module = (\<lambda>m task_id c w.
        (Returns \<lparr>status = ''success'',
                  result = PDict [(''final_video_path'', PStr ''./ad_output/a1b2c3d4/ad.mp4'')],
                  error = PNone\<rparr>, w)),
      user_confirm = (\<lambda>prompt w. (Inr True, w)),
      input_feedback = (\<lambda>w. (Inr [], w)),
      strftime = (\<lambda>w. (''2026-01-01 00:00:00'', w)),
      generate_task_id = (\<lambda>w. (''a1b2c3d4'', w))\<rparr>"


text \<open>An environment whose modules all return a failure of their own.\<close>

definition failing_env :: "unit env" where
  "failing_env =
     \<lparr>run_module = (\<lambda>m task_id c w.
        (Returns \<lparr>status = ''failed'', result = PDict [], error = PStr ''X''\<rparr>, w)),
      user_confirm = (\<lambda>prompt w. (Inr True, w)),
      input_feedback = (\<lambda>w. (Inr [], w)),
      strftime = (\<lambda>w. (''2026-01-01 00:00:00'', w)),
      generate_task_id = (\<lambda>w. (''a1b2c3d4'', w))\<rparr>"

text \<open>A pause node: the prompt shown to the operator, the state when the result of the step
  has been stored and the operator is asked, and the state when the operator has answered.\<close>

definition pause_prompt :: "string \<Rightarrow> string" where
  "pause_prompt name = (if name = ''story_builder'' then prompt_story else prompt_storyboard)"

definition at_pause :: "'w env \<Rightarrow> string \<Rightarrow> 'w state \<Rightarrow> 'w state" where
  "at_pause env name s =
     (case fst (dispatch_module env name s) of
        Inr out \<Rightarrow> snd (store_result env name (result out) (snd (dispatch_module env name s)))
      | Inl e \<Rightarrow> snd (dispatch_module env name s))"

definition answered :: "'w env \<Rightarrow> string \<Rightarrow> 'w state \<Rightarrow> 'w state" where
  "answered env name s =
     (at_pause env name s)
       \<lparr>world := snd (user_confirm env (pause_prompt name) (world (at_pause env name s)))\<rparr>"

text \<open>An environment whose modules all succeed and whose operator declines and asks for a
  funnier story.\<close>

definition revising_env :: "unit env" where
  "revising_env =
     \<lparr>run_module = (\<lambda>m task_id c w.
        (Returns \<lparr>status = ''success'', result = PDict [], error = PNone\<rparr>, w)),
      user_confirm = (\<lambda>prompt w. (Inr False, w)),
      input_feedback = (\<lambda>w. (Inr ''make it funnier'', w)),
      strftime = (\<lambda>w. (''2026-01-01 00:00:00'', w)),
      generate_task_id = (\<lambda>w. (''a1b2c3d4'', w))\<rparr>"

section \<open>Properties\<close>

subsection \<open>Progress\<close>

lemma py_round_nearest:
  assumes lo: "of_int n - 1 / 2 < x * 10 ^ nd" and hi: "x * 10 ^ nd < of_int n + 1 / 2"
  shows "py_round x nd = of_int n / 10 ^ nd"
proof (cases "of_int n \<le> x * 10 ^ nd")
  case True
  then have f: "\<lfloor>x * 10 ^ nd\<rfloor> = n" using hi by (intro floor_unique) auto
  have "x * 10 ^ nd - of_int n < 1 / 2" using hi by simp
  then show ?thesis by (simp add: py_round_def Let_def f)
next
  case False
  then have f: "\<lfloor>x * 10 ^ nd\<rfloor> = n - 1" using lo by (intro floor_unique) auto
  have d: "1 / 2 < x * 10 ^ nd - of_int (n - 1)" using lo by simp
  then have nd': "\<not> x * 10 ^ nd - of_int (n - 1) < 1 / 2" by simp
  show ?thesis using d nd' by (simp add: py_round_def Let_def f)
qed

lemma flow_vals: "map calculate_progress schedule_flow = map (\<lambda>i. Inr (spec_progress i)) [0..<7]"
  by (simp add: calculate_progress_def schedule_flow_def spec_progress_def Let_def upt_rec)

lemma spec_progress_at:
  "spec_progress 0 = 1429 / 100" "spec_progress (Suc 0) = 2857 / 100"
  "spec_progress 1 = 2857 / 100" "spec_progress 2 = 4286 / 100"
  "spec_progress 3 = 5714 / 100" "spec_progress 4 = 7143 / 100" "spec_progress 5 = 8571 / 100"
  "spec_progress 6 = 100"
  using py_round_nearest[of 1429 "100 / 7" 2] py_round_nearest[of 2857 "200 / 7" 2]
    py_round_nearest[of 4286 "300 / 7" 2] py_round_nearest[of 5714 "400 / 7" 2]
    py_round_nearest[of 7143 "500 / 7" 2] py_round_nearest[of 8571 "600 / 7" 2]
    py_round_nearest[of 10000 "100" 2]
  by (simp_all add: spec_progress_def)

lemma below_seven: "i < 7 \<Longrightarrow> i = 0 \<or> i = 1 \<or> i = 2 \<or> i = 3 \<or> i = 4 \<or> i = 5 \<or> i = (6::nat)"
  by arith

lemma progress_values:
  "\<forall>i<length schedule_flow.
     calculate_progress (schedule_flow ! i) = Inr (spec_progress i) \<and>
     0 \<le> spec_progress i \<and> spec_progress i \<le> 100 \<and>
     (\<forall>j<length schedule_flow. i \<le> j \<longrightarrow> spec_progress i \<le> spec_progress j)"
proof (intro allI impI)
  fix i assume i: "i < length schedule_flow"
  have len: "length schedule_flow = 7" by (simp add: schedule_flow_def)
  have i7: "i < 7" using i len by simp
  have "calculate_progress (schedule_flow ! i) = map calculate_progress schedule_flow ! i"
    using i by simp
  also have "\<dots> = map (\<lambda>k. Inr (spec_progress k)) [0..<7] ! i"
    by (simp only: flow_vals)
  also have "\<dots> = Inr (spec_progress i)"
    using i7 by (simp del: upt_Suc)
  finally have c1: "calculate_progress (schedule_flow ! i) = Inr (spec_progress i)" .
  have c2: "0 \<le> spec_progress i \<and> spec_progress i \<le> 100"
    using below_seven[OF i7] by (elim disjE) (simp_all add: spec_progress_at)
  have c3: "\<forall>j<length schedule_flow. i \<le> j \<longrightarrow> spec_progress i \<le> spec_progress j"
  proof (intro allI impI)
    fix j assume j: "j < length schedule_flow" and ij: "i \<le> j"
    have j7: "j < 7" using j len by simp
    show "spec_progress i \<le> spec_progress j"
      using below_seven[OF i7] below_seven[OF j7] ij
      by (elim disjE) (simp_all add: spec_progress_at)
  qed
  show "calculate_progress (schedule_flow ! i) = Inr (spec_progress i) \<and>
     0 \<le> spec_progress i \<and> spec_progress i \<le> 100 \<and>
     (\<forall>j<length schedule_flow. i \<le> j \<longrightarrow> spec_progress i \<le> spec_progress j)"
    using c1 c2 c3 by blast
qed

subsection \<open>Bookkeeping on a well-formed context\<close>

lemmas prog_defs = pbind_def ret_def raise_def lift_def catch_def get_context_def
  modify_context_def context_getitem_def strftime_now_def alloc_list_def save_context_def

lemma dict_update_Nil [simp]: "dict_update d [] = d"
  and dict_update_Cons [simp]: "dict_update d ((k, v) # u) = dict_update (AList.update k v d) u"
  by (simp_all add: dict_update_def)

lemma task_ok_D:
  assumes "task_ok tid s"
  obtains kvs a where "map_of (cur_context s) ''task_id'' = Some (PStr tid)"
    "map_of (cur_context s) ''module_status'' = Some (PDict kvs)"
    "map_of (cur_context s) ''error_log'' = Some (PRef a)"
  using assms by (auto simp: task_ok_def)

lemmas run_simps = prog_defs case_prod_beta getitem_def update_conv' update_context_def
  module_status_with_def error_log_plus_def error_log_append_def





lemma mark_failed_ok:
  assumes "task_ok tid s"
  shows "fst (mark_failed env name msg s) = Inr () \<and>
         task_ok tid (snd (mark_failed env name msg s)) \<and>
         in_sync tid (snd (mark_failed env name msg s)) \<and>
         next_ref s \<le> next_ref (snd (mark_failed env name msg s)) \<and>
         kept {''module_status'', ''error_log'', ''update_time''} s (snd (mark_failed env name msg s)) \<and>
         mstat (snd (mark_failed env name msg s)) = (mstat s)(name \<mapsto> PStr ''failed'') \<and>
         (\<exists>t. error_log_of (snd (mark_failed env name msg s)) = error_log_of s @ [error_entry name (PStr msg) t])"
proof -
  from assms(1) obtain kvs a where *: "map_of (cur_context s) ''task_id'' = Some (PStr tid)"
    "map_of (cur_context s) ''module_status'' = Some (PDict kvs)"
    "map_of (cur_context s) ''error_log'' = Some (PRef a)" by (rule task_ok_D)

  show ?thesis using * 
    by (simp add: mark_failed_def run_simps task_ok_def in_sync_def kept_def mstat_def error_log_of_def fun_eq_iff) blast?
qed

lemma calculate_progress_ok:
  "name \<in> set schedule_flow \<Longrightarrow> \<exists>p. calculate_progress name = Inr p"
  by (auto simp: calculate_progress_def schedule_flow_def)

lemma mark_busy_ok:
  assumes "task_ok tid s" "name \<in> set schedule_flow"
  shows "fst (mark_busy env name s) = Inr () \<and>
         task_ok tid (snd (mark_busy env name s)) \<and>
         in_sync tid (snd (mark_busy env name s)) \<and>
         next_ref s \<le> next_ref (snd (mark_busy env name s)) \<and>
         kept {''module_status'', ''current_step'', ''progress'', ''update_time''} s (snd (mark_busy env name s)) \<and>
         mstat (snd (mark_busy env name s)) = (mstat s)(name \<mapsto> PStr ''busy'') \<and>
         error_log_of (snd (mark_busy env name s)) = error_log_of s"
proof -
  from assms(1) obtain kvs a where *: "map_of (cur_context s) ''task_id'' = Some (PStr tid)"
    "map_of (cur_context s) ''module_status'' = Some (PDict kvs)"
    "map_of (cur_context s) ''error_log'' = Some (PRef a)" by (rule task_ok_D)
  from assms(2) obtain p where p: "calculate_progress name = Inr p" using calculate_progress_ok by blast
  show ?thesis using * p
    by (simp add: mark_busy_def run_simps task_ok_def in_sync_def kept_def mstat_def error_log_of_def fun_eq_iff) blast?
qed


lemma record_status_ok:
  assumes "task_ok tid s"
  shows "fst (record_status env name v s) = Inr () \<and>
         task_ok tid (snd (record_status env name v s)) \<and>
         in_sync tid (snd (record_status env name v s)) \<and>
         next_ref s \<le> next_ref (snd (record_status env name v s)) \<and>
         kept {''module_status'', ''update_time''} s (snd (record_status env name v s)) \<and>
         mstat (snd (record_status env name v s)) = (mstat s)(name \<mapsto> PStr v) \<and>
         error_log_of (snd (record_status env name v s)) = error_log_of s"
proof -
  from assms(1) obtain kvs a where *: "map_of (cur_context s) ''task_id'' = Some (PStr tid)"
    "map_of (cur_context s) ''module_status'' = Some (PDict kvs)"
    "map_of (cur_context s) ''error_log'' = Some (PRef a)" by (rule task_ok_D)

  show ?thesis using * 
    by (simp add: record_status_def run_simps task_ok_def in_sync_def kept_def mstat_def error_log_of_def fun_eq_iff) blast?
qed


lemma fail_task_ok:
  assumes "task_ok tid s"
  shows "fst (fail_task env name err s) = Inr () \<and>
         task_ok tid (snd (fail_task env name err s)) \<and>
         in_sync tid (snd (fail_task env name err s)) \<and>
         next_ref s \<le> next_ref (snd (fail_task env name err s)) \<and>
         kept {''task_status'', ''error_log'', ''update_time''} s (snd (fail_task env name err s)) \<and>
         mstat (snd (fail_task env name err s)) = mstat s \<and>
         (\<exists>t. error_log_of (snd (fail_task env name err s)) = error_log_of s @ [error_entry name err t])"
proof -
  from assms(1) obtain kvs a where *: "map_of (cur_context s) ''task_id'' = Some (PStr tid)"
    "map_of (cur_context s) ''module_status'' = Some (PDict kvs)"
    "map_of (cur_context s) ''error_log'' = Some (PRef a)" by (rule task_ok_D)

  show ?thesis using * 
    by (simp add: fail_task_def run_simps task_ok_def in_sync_def kept_def mstat_def error_log_of_def fun_eq_iff) blast?
qed




lemma log_failure_ok:
  assumes "task_ok tid s"
  shows "fst (log_failure env (PStr tid) name err s) = Inr () \<and>
         task_ok tid (snd (log_failure env (PStr tid) name err s)) \<and>
         in_sync tid (snd (log_failure env (PStr tid) name err s)) \<and>
         next_ref s \<le> next_ref (snd (log_failure env (PStr tid) name err s)) \<and>
         kept {} s (snd (log_failure env (PStr tid) name err s)) \<and>
         mstat (snd (log_failure env (PStr tid) name err s)) = mstat s \<and>
         (\<exists>t. error_log_of (snd (log_failure env (PStr tid) name err s)) = error_log_of s @ [error_entry name err t])"
proof -
  from assms(1) obtain kvs a where *: "map_of (cur_context s) ''task_id'' = Some (PStr tid)"
    "map_of (cur_context s) ''module_status'' = Some (PDict kvs)"
    "map_of (cur_context s) ''error_log'' = Some (PRef a)" by (rule task_ok_D)
  let ?t = "fst (strftime env (world s))"
  have eq: "log_failure env (PStr tid) name err s =
     (Inr (), s\<lparr>world := snd (strftime env (world s)),
                heap := (heap s)(a := heap s a @ [error_entry name err ?t]),
                disk := (disk s)(context_file tid \<mapsto>
                   snapshot ((heap s)(a := heap s a @ [error_entry name err ?t])) (cur_context s))\<rparr>)"
    using * by (simp add: log_failure_def error_log_append_def prog_defs case_prod_beta getitem_def)
  have m: "mstat (snd (log_failure env (PStr tid) name err s)) = mstat s"
    unfolding eq by (rule ext) (simp add: mstat_def)
  show ?thesis unfolding m unfolding eq using *
    by (simp add: task_ok_def in_sync_def kept_def error_log_of_def) blast?
qed

lemma update_plain_ok:
  assumes "task_ok tid s" "k \<noteq> ''task_id''" "k \<noteq> ''module_status''" "k \<noteq> ''error_log''"
  shows "fst (update_context env [(k, v)] s) = Inr () \<and>
         task_ok tid (snd (update_context env [(k, v)] s)) \<and>
         in_sync tid (snd (update_context env [(k, v)] s)) \<and>
         next_ref s \<le> next_ref (snd (update_context env [(k, v)] s)) \<and>
         kept {k, ''update_time''} s (snd (update_context env [(k, v)] s)) \<and>
         mstat (snd (update_context env [(k, v)] s)) = mstat s \<and>
         error_log_of (snd (update_context env [(k, v)] s)) = error_log_of s \<and>
         (k \<noteq> ''update_time'' \<longrightarrow> map_of (cur_context (snd (update_context env [(k, v)] s))) k = Some v)"
proof -
  from assms(1) obtain kvs a where *: "map_of (cur_context s) ''task_id'' = Some (PStr tid)"
    "map_of (cur_context s) ''module_status'' = Some (PDict kvs)"
    "map_of (cur_context s) ''error_log'' = Some (PRef a)" by (rule task_ok_D)
  let ?c = "AList.update ''update_time'' (PStr (fst (strftime env (world s)))) (AList.update k v (cur_context s))"
  have c: "map_of ?c ''task_id'' = Some (PStr tid)" "map_of ?c ''module_status'' = Some (PDict kvs)"
     "map_of ?c ''error_log'' = Some (PRef a)"
    using * assms(2-4) by (simp_all add: update_conv')
  have eq: "update_context env [(k, v)] s =
     (Inr (), s\<lparr>cur_context := ?c, world := snd (strftime env (world s)),
                disk := (disk s)(context_file tid \<mapsto> snapshot (heap s) ?c)\<rparr>)"
    using c(1) by (simp add: update_context_def prog_defs case_prod_beta getitem_def)
  have m: "mstat (snd (update_context env [(k, v)] s)) = mstat s"
    unfolding eq by (rule ext) (simp add: mstat_def c * del: map_of_eq_Some_iff)
  have kp: "kept {k, ''update_time''} s (snd (update_context env [(k, v)] s))"
    unfolding eq by (simp add: kept_def update_conv')
  have v: "k \<noteq> ''update_time'' \<longrightarrow> map_of (cur_context (snd (update_context env [(k, v)] s))) k = Some v"
    unfolding eq by (simp add: update_conv')
  have w: "task_ok tid (snd (update_context env [(k, v)] s))"
    unfolding eq task_ok_def using c by simp
  have e: "error_log_of (snd (update_context env [(k, v)] s)) = error_log_of s"
    unfolding eq error_log_of_def by (simp add: c * )
  have rest: "fst (update_context env [(k, v)] s) = Inr ()" "in_sync tid (snd (update_context env [(k, v)] s))"
     "next_ref s \<le> next_ref (snd (update_context env [(k, v)] s))"
    unfolding eq by (simp_all add: in_sync_def)
  show ?thesis using m kp v w e rest by blast
qed

lemma has_key_map_of: "has_key d k \<longleftrightarrow> map_of d k \<noteq> None"
  by (simp add: has_key_def map_of_eq_None_iff)

subsection \<open>Dispatching one module\<close>

lemma registry_name: "map_of module_registry name = Some m \<Longrightarrow> mod_name m = name"
  by (auto simp: module_registry_def split: if_splits)

lemma registry_flow: "map_of module_registry name = Some m \<Longrightarrow> name \<in> set schedule_flow"
  by (auto simp: module_registry_def schedule_flow_def split: if_splits)

lemma task_ok_validated [simp]: "task_ok tid (validated m s) = task_ok tid s"
  by (simp add: task_ok_def validated_def)

lemma dispatch_validate_raises:
  assumes "task_ok tid s" "map_of module_registry name = Some m"
    "validate_input (heap s) m (cur_context s) = Inl e"
  shows "dispatch_module env name s = (Inl e, validated m s)"
  using assms
  by (simp add: dispatch_module_def prog_defs case_prod_beta getitem_def registry_getitem_def
      call_validate_input_def validated_def task_ok_def)

lemma dispatch_validate_false:
  assumes "task_ok tid s" "map_of module_registry name = Some m"
    "validate_input (heap s) m (cur_context s) = Inr False"
  shows "dispatch_module env name s =
    (Inr (failed_outcome (validate_error_msg name)),
     snd (mark_failed env name (validate_error_msg name) (validated m s)))"
proof -
  have "task_ok tid (validated m s)" using assms(1) by simp
  from mark_failed_ok[OF this, of env name "validate_error_msg name"]
  have f: "fst (mark_failed env name (validate_error_msg name) (validated m s)) = Inr ()" by blast
  have t: "map_of (cur_context s) ''task_id'' = Some (PStr tid)" using assms(1) by (simp add: task_ok_def)
  show ?thesis using assms(2,3) t f
    by (simp add: dispatch_module_def pbind_def ret_def lift_def context_getitem_def case_prod_beta getitem_def registry_getitem_def
      call_validate_input_def validated_def Let_def prod_eq_iff)
qed

lemma dispatch_validate_true:
  assumes "task_ok tid s" "map_of module_registry name = Some m"
    "validate_input (heap s) m (cur_context s) = Inr True"
  shows "dispatch_module env name s =
    (case run_outcome_at env m (PStr tid) s of
       Raises e \<Rightarrow>
         (Inr (failed_outcome (run_error_msg name e)),
          snd (mark_failed env name (run_error_msg name e) (ran_state env m (PStr tid) s)))
     | Returns r \<Rightarrow>
         (Inr r,
          if status r = ''failed''
          then snd (log_failure env (PStr tid) name (error r)
                 (snd (record_status env name ''failed'' (ran_state env m (PStr tid) s))))
          else snd (record_status env name (if status r = ''success'' then ''success'' else ''failed'')
                 (ran_state env m (PStr tid) s))))"
proof -
  have n: "mod_name m = name" and fl: "name \<in> set schedule_flow"
    using assms(2) by (simp_all add: registry_name registry_flow)
  have w1: "task_ok tid (validated m s)" using assms(1) by simp
  from mark_busy_ok[OF w1 fl, of env]
  have b: "fst (mark_busy env name (validated m s)) = Inr ()" and w2: "task_ok tid (busy_state env m s)"
    by (simp_all add: busy_state_def n)
  have w3: "task_ok tid (ran_state env m (PStr tid) s)"
    using w2 by (simp add: task_ok_def ran_state_def)
  have t: "map_of (cur_context s) ''task_id'' = Some (PStr tid)" using assms(1) by (simp add: task_ok_def)
  have mf: "\<And>msg. fst (mark_failed env name msg (ran_state env m (PStr tid) s)) = Inr ()"
    using mark_failed_ok[OF w3] by blast
  have rs: "\<And>v. fst (record_status env name v (ran_state env m (PStr tid) s)) = Inr ()"
    and rw: "\<And>v. task_ok tid (snd (record_status env name v (ran_state env m (PStr tid) s)))"
    using record_status_ok[OF w3] by blast+
  have lf: "\<And>err. fst (log_failure env (PStr tid) name err (snd (record_status env name ''failed'' (ran_state env m (PStr tid) s)))) = Inr ()"
    using log_failure_ok[OF rw] by blast
  have run: "call_run env m (PStr tid) (busy_state env m s) =
     (case run_outcome_at env m (PStr tid) s of Returns r \<Rightarrow> Inr r | Raises e \<Rightarrow> Inl e,
      ran_state env m (PStr tid) s)"
    by (simp add: call_run_def case_prod_beta ran_state_def run_outcome_at_def)
  have body: "catch (run_and_record env m (PStr tid) name) (run_failed env name) (busy_state env m s) =
    (case run_outcome_at env m (PStr tid) s of
       Raises e \<Rightarrow>
         (Inr (failed_outcome (run_error_msg name e)),
          snd (mark_failed env name (run_error_msg name e) (ran_state env m (PStr tid) s)))
     | Returns r \<Rightarrow>
         (Inr r,
          if status r = ''failed''
          then snd (log_failure env (PStr tid) name (error r)
                 (snd (record_status env name ''failed'' (ran_state env m (PStr tid) s))))
          else snd (record_status env name (if status r = ''success'' then ''success'' else ''failed'')
                 (ran_state env m (PStr tid) s))))"
    using mf rs lf
    by (cases "run_outcome_at env m (PStr tid) s")
       (simp_all add: catch_def run_and_record_def run_failed_def pbind_def ret_def run Let_def
          case_prod_beta prod_eq_iff)
  have "dispatch_module env name s =
     catch (run_and_record env m (PStr tid) name) (run_failed env name) (busy_state env m s)"
    using assms(2,3) t b
    by (simp add: dispatch_module_def pbind_def ret_def lift_def context_getitem_def case_prod_beta
        getitem_def registry_getitem_def call_validate_input_def validated_def busy_state_def n)
  then show ?thesis using body by simp
qed

lemma kept_slotsI: "kept K s s' \<Longrightarrow> K \<subseteq> K' \<Longrightarrow> kept_slots K' s s'"
  by (auto simp: kept_def kept_slots_def)

lemma kept_slots_refl: "kept_slots K s s"
  by (simp add: kept_slots_def)

lemma kept_slots_trans: "kept_slots K s s' \<Longrightarrow> kept_slots K s' s'' \<Longrightarrow> kept_slots K s s''"
  by (simp add: kept_slots_def)

lemma kept_slots_mono: "kept_slots K s s' \<Longrightarrow> K \<subseteq> K' \<Longrightarrow> kept_slots K' s s'"
  by (auto simp: kept_slots_def)

lemma kept_trace: "kept K s s' \<Longrightarrow> trace s' = trace s"
  by (simp add: kept_def)

lemma obs_trace_upd [simp]:
  "mstat (s\<lparr>trace := x\<rparr>) = mstat s" "error_log_of (s\<lparr>trace := x\<rparr>) = error_log_of s"
  "task_ok tid (s\<lparr>trace := x\<rparr>) = task_ok tid s" "in_sync tid (s\<lparr>trace := x\<rparr>) = in_sync tid s"
  "kept_slots K s0 (s\<lparr>trace := x\<rparr>) = kept_slots K s0 s"
  by (simp_all add: mstat_def error_log_of_def task_ok_def in_sync_def kept_slots_def fun_eq_iff
      split: option.split pyval.split)

lemma obs_world_upd [simp]:
  "mstat (s\<lparr>world := y\<rparr>) = mstat s" "error_log_of (s\<lparr>world := y\<rparr>) = error_log_of s"
  "task_ok tid (s\<lparr>world := y\<rparr>) = task_ok tid s" "in_sync tid (s\<lparr>world := y\<rparr>) = in_sync tid s"
  "kept_slots K s0 (s\<lparr>world := y\<rparr>) = kept_slots K s0 s"
  by (simp_all add: mstat_def error_log_of_def task_ok_def in_sync_def kept_slots_def fun_eq_iff
      split: option.split pyval.split)

lemma busy_facts:
  assumes "task_ok tid s" "map_of module_registry name = Some m"
  shows "task_ok tid (busy_state env m s)"
    and "in_sync tid (busy_state env m s)"
    and "kept_slots dispatch_keys s (busy_state env m s)"
    and "mstat (busy_state env m s) = (mstat s)(name \<mapsto> PStr ''busy'')"
    and "error_log_of (busy_state env m s) = error_log_of s"
    and "trace (busy_state env m s) = trace s @ [CallValidate name (cur_context s)]"
    and "next_ref s \<le> next_ref (busy_state env m s)"
proof -
  have n: "mod_name m = name" and fl: "name \<in> set schedule_flow"
    using assms(2) by (simp_all add: registry_name registry_flow)
  have w1: "task_ok tid (validated m s)" using assms(1) by simp
  note b = mark_busy_ok[OF w1 fl, of env, folded n, folded busy_state_def]
  from b show "task_ok tid (busy_state env m s)" "in_sync tid (busy_state env m s)" by blast+
  from b have k: "kept {''module_status'', ''current_step'', ''progress'', ''update_time''} (validated m s) (busy_state env m s)"
    by blast
  have "kept_slots dispatch_keys (validated m s) (busy_state env m s)"
    by (rule kept_slotsI[OF k]) (simp add: dispatch_keys_def)
  then show "kept_slots dispatch_keys s (busy_state env m s)"
    by (simp add: kept_slots_def validated_def)
  from b have "mstat (busy_state env m s) = (mstat (validated m s))(mod_name m \<mapsto> PStr ''busy'')" by blast
  then show "mstat (busy_state env m s) = (mstat s)(name \<mapsto> PStr ''busy'')"
    by (simp add: validated_def n)
  from b have "error_log_of (busy_state env m s) = error_log_of (validated m s)" by blast
  then show "error_log_of (busy_state env m s) = error_log_of s" by (simp add: validated_def)
  from kept_trace[OF k] show "trace (busy_state env m s) = trace s @ [CallValidate name (cur_context s)]"
    by (simp add: validated_def n)
  from b have "next_ref (validated m s) \<le> next_ref (busy_state env m s)" by blast
  then show "next_ref s \<le> next_ref (busy_state env m s)" by (simp add: validated_def)
qed

lemma ran_facts:
  assumes "task_ok tid s" "map_of module_registry name = Some m"
  shows "task_ok tid (ran_state env m t s)"
    and "kept_slots dispatch_keys s (ran_state env m t s)"
    and "mstat (ran_state env m t s) = (mstat s)(name \<mapsto> PStr ''busy'')"
    and "error_log_of (ran_state env m t s) = error_log_of s"
    and "trace (ran_state env m t s) = trace s @ [CallValidate name (cur_context s),
           CallRun name t (cur_context (busy_state env m s)) (run_outcome_at env m t s)]"
    and "next_ref s \<le> next_ref (ran_state env m t s)"
    and "cur_context (ran_state env m t s) = cur_context (busy_state env m s)"
  using busy_facts[OF assms, of env] registry_name[OF assms(2)]
  by (simp_all add: ran_state_def)

lemma dispatch_post_raises:
  assumes "task_ok tid s" "map_of module_registry name = Some m"
  shows "dispatch_post tid name s (Inl e) (validated m s)"
  using registry_name[OF assms(2)]
  by (simp add: dispatch_post_def validated_def kept_slots_def mstat_def)

lemma dispatch_post_mark_failed:
  assumes ok: "task_ok tid s1" and ks: "kept_slots dispatch_keys s s1"
    and ms: "\<forall>n. n \<noteq> name \<longrightarrow> mstat s1 n = mstat s n"
    and nr: "next_ref s \<le> next_ref s1"
    and tr: "\<exists>evs. trace s1 = trace s @ evs \<and>
        (\<forall>e\<in>set evs. event_module e = name \<and>
           (\<forall>k. k \<notin> dispatch_keys \<longrightarrow> map_of (event_context e) k = map_of (cur_context s) k))"
    and el: "error_log_of s1 = error_log_of s"
  shows "dispatch_post tid name s (Inr (failed_outcome msg)) (snd (mark_failed env name msg s1))"
proof -
  let ?s' = "snd (mark_failed env name msg s1)"
  note f = mark_failed_ok[OF ok, of env name msg]
  from f have k: "kept {''module_status'', ''error_log'', ''update_time''} s1 ?s'" by blast
  have "kept_slots dispatch_keys s1 ?s'" by (rule kept_slotsI[OF k]) (simp add: dispatch_keys_def)
  with ks have a: "kept_slots dispatch_keys s ?s'" by (rule kept_slots_trans)
  from f have m: "mstat ?s' = (mstat s1)(name \<mapsto> PStr ''failed'')" by blast
  from f have n: "next_ref s1 \<le> next_ref ?s'" by blast
  from f obtain t where e: "error_log_of ?s' = error_log_of s1 @ [error_entry name (PStr msg) t]" by blast
  from f have o: "task_ok tid ?s'" "in_sync tid ?s'" by blast+
  show ?thesis
    unfolding dispatch_post_def
    using a m ms n nr tr e el o kept_trace[OF k]
    by (auto simp: failed_outcome_def)
qed

lemma dispatch_post_false:
  assumes "task_ok tid s" "map_of module_registry name = Some m"
  shows "dispatch_post tid name s (Inr (failed_outcome msg)) (snd (mark_failed env name msg (validated m s)))"
proof (rule dispatch_post_mark_failed)
  show "task_ok tid (validated m s)" using assms(1) by simp
  show "kept_slots dispatch_keys s (validated m s)" by (simp add: validated_def kept_slots_refl)
  show "\<forall>n. n \<noteq> name \<longrightarrow> mstat (validated m s) n = mstat s n" by (simp add: validated_def)
  show "next_ref s \<le> next_ref (validated m s)" by (simp add: validated_def)
  show "error_log_of (validated m s) = error_log_of s" by (simp add: validated_def)
  show "\<exists>evs. trace (validated m s) = trace s @ evs \<and>
        (\<forall>e\<in>set evs. event_module e = name \<and>
           (\<forall>k. k \<notin> dispatch_keys \<longrightarrow> map_of (event_context e) k = map_of (cur_context s) k))"
    using registry_name[OF assms(2)] by (simp add: validated_def)
qed

lemma ran_trace:
  assumes "task_ok tid s" "map_of module_registry name = Some m"
  shows "\<exists>evs. trace (ran_state env m t s) = trace s @ evs \<and>
        (\<forall>e\<in>set evs. event_module e = name \<and>
           (\<forall>k. k \<notin> dispatch_keys \<longrightarrow> map_of (event_context e) k = map_of (cur_context s) k))"
  using ran_facts(5)[OF assms, of env t] busy_facts(3)[OF assms, of env]
  by (simp add: kept_slots_def)

lemma dispatch_post_run_raises:
  assumes "task_ok tid s" "map_of module_registry name = Some m"
  shows "dispatch_post tid name s (Inr (failed_outcome msg))
           (snd (mark_failed env name msg (ran_state env m t s)))"
proof (rule dispatch_post_mark_failed)
  show "task_ok tid (ran_state env m t s)" by (rule ran_facts(1)[OF assms])
  show "kept_slots dispatch_keys s (ran_state env m t s)" by (rule ran_facts(2)[OF assms])
  show "\<forall>n. n \<noteq> name \<longrightarrow> mstat (ran_state env m t s) n = mstat s n"
    by (simp add: ran_facts(3)[OF assms])
  show "next_ref s \<le> next_ref (ran_state env m t s)" by (rule ran_facts(6)[OF assms])
  show "error_log_of (ran_state env m t s) = error_log_of s" by (rule ran_facts(4)[OF assms])
  show "\<exists>evs. trace (ran_state env m t s) = trace s @ evs \<and>
        (\<forall>e\<in>set evs. event_module e = name \<and>
           (\<forall>k. k \<notin> dispatch_keys \<longrightarrow> map_of (event_context e) k = map_of (cur_context s) k))"
    by (rule ran_trace[OF assms])
qed

lemma dispatch_post_recorded:
  fixes env :: "'w env" and t :: pyval and v :: string and s :: "'w state"
  assumes "task_ok tid s" "map_of module_registry name = Some m"
  defines "s3 \<equiv> ran_state env m t s"
  defines "s4 \<equiv> snd (record_status env name v s3)"
  shows "kept_slots dispatch_keys s s4" "\<forall>n. n \<noteq> name \<longrightarrow> mstat s4 n = mstat s n"
    "mstat s4 name = Some (PStr v)" "next_ref s \<le> next_ref s4"
    "task_ok tid s4" "in_sync tid s4" "error_log_of s4 = error_log_of s"
    "\<exists>evs. trace s4 = trace s @ evs \<and>
        (\<forall>e\<in>set evs. event_module e = name \<and>
           (\<forall>k. k \<notin> dispatch_keys \<longrightarrow> map_of (event_context e) k = map_of (cur_context s) k))"
proof -
  have ok3: "task_ok tid s3" unfolding s3_def by (rule ran_facts(1)[OF assms(1,2)])
  note f = record_status_ok[OF ok3, of env name v, folded s4_def]
  from f have k: "kept {''module_status'', ''update_time''} s3 s4" by blast
  have "kept_slots dispatch_keys s3 s4" by (rule kept_slotsI[OF k]) (simp add: dispatch_keys_def)
  with ran_facts(2)[OF assms(1,2), of env t, folded s3_def]
  show "kept_slots dispatch_keys s s4" by (rule kept_slots_trans)
  from f have m: "mstat s4 = (mstat s3)(name \<mapsto> PStr v)" by blast
  then show "\<forall>n. n \<noteq> name \<longrightarrow> mstat s4 n = mstat s n" "mstat s4 name = Some (PStr v)"
    using ran_facts(3)[OF assms(1,2), of env t, folded s3_def] by simp_all
  from f have "next_ref s3 \<le> next_ref s4" by blast
  with ran_facts(6)[OF assms(1,2), of env t, folded s3_def] show "next_ref s \<le> next_ref s4" by simp
  from f show "task_ok tid s4" "in_sync tid s4" by blast+
  from f have "error_log_of s4 = error_log_of s3" by blast
  with ran_facts(4)[OF assms(1,2), of env t, folded s3_def] show "error_log_of s4 = error_log_of s" by simp
  from kept_trace[OF k] ran_trace[OF assms(1,2), of env t, folded s3_def]
  show "\<exists>evs. trace s4 = trace s @ evs \<and>
        (\<forall>e\<in>set evs. event_module e = name \<and>
           (\<forall>k. k \<notin> dispatch_keys \<longrightarrow> map_of (event_context e) k = map_of (cur_context s) k))"
    by simp
qed

lemma dispatch_post_returns_other:
  assumes "task_ok tid s" "map_of module_registry name = Some m" "status r \<noteq> ''failed''"
  shows "dispatch_post tid name s (Inr r) (snd (record_status env name v (ran_state env m t s)))"
  unfolding dispatch_post_def
  using dispatch_post_recorded[OF assms(1,2), of env v t] assms(3) by simp

lemma dispatch_post_returns_failed:
  assumes "task_ok tid s" "map_of module_registry name = Some m" "status r = ''failed''"
  shows "dispatch_post tid name s (Inr r)
     (snd (log_failure env (PStr tid) name (error r)
        (snd (record_status env name ''failed'' (ran_state env m t s)))))"
proof -
  let ?s4 = "snd (record_status env name ''failed'' (ran_state env m t s))"
  let ?s5 = "snd (log_failure env (PStr tid) name (error r) ?s4)"
  note r4 = dispatch_post_recorded[OF assms(1,2), of env "''failed''" t]
  note f = log_failure_ok[OF r4(5), of env name "error r"]
  from f have k: "kept {} ?s4 ?s5" by blast
  have "kept_slots dispatch_keys ?s4 ?s5" by (rule kept_slotsI[OF k]) simp
  with r4(1) have a: "kept_slots dispatch_keys s ?s5" by (rule kept_slots_trans)
  from f have m: "mstat ?s5 = mstat ?s4" by blast
  from f have n: "next_ref ?s4 \<le> next_ref ?s5" by blast
  from f obtain t' where e: "error_log_of ?s5 = error_log_of ?s4 @ [error_entry name (error r) t']" by blast
  from f have o: "task_ok tid ?s5" "in_sync tid ?s5" by blast+
  show ?thesis
    unfolding dispatch_post_def
    using a m n e o kept_trace[OF k] r4(2,3,4,7,8) assms(3)
    by auto
qed

theorem dispatch_spec:
  assumes "task_ok tid s" "map_of module_registry name = Some m"
  shows "dispatch_post tid name s (fst (dispatch_module env name s)) (snd (dispatch_module env name s))"
proof (cases "validate_input (heap s) m (cur_context s)")
  case (Inl e)
  show ?thesis
    unfolding dispatch_validate_raises[OF assms Inl] using dispatch_post_raises[OF assms] by simp
next
  case (Inr b)
  show ?thesis
  proof (cases b)
    case False
    with Inr have v: "validate_input (heap s) m (cur_context s) = Inr False" by simp
    show ?thesis
      unfolding dispatch_validate_false[OF assms v] using dispatch_post_false[OF assms] by simp
  next
    case True
    with Inr have v: "validate_input (heap s) m (cur_context s) = Inr True" by simp
    show ?thesis
    proof (cases "run_outcome_at env m (PStr tid) s")
      case (Raises e)
      show ?thesis
        unfolding dispatch_validate_true[OF assms v] Raises
        using dispatch_post_run_raises[OF assms] by simp
    next
      case (Returns r)
      show ?thesis
        unfolding dispatch_validate_true[OF assms v] Returns
        using dispatch_post_returns_failed[OF assms, of r env] dispatch_post_returns_other[OF assms, of r env]
        by (cases "status r = ''failed''") simp_all
    qed
  qed
qed

subsection \<open>Claims about a single dispatch\<close>

lemma sample_state_ok: "task_ok ''a1b2c3d4'' sample_state"
  by (simp add: task_ok_def sample_state_def sample_context_def initial_template_def update_conv')

text \<open>
  Claim C3. When \<^verbatim>\<open>validate_input\<close> of a registered module returns false on the context of
  a task, \<^verbatim>\<open>_dispatch_module\<close> does not call \<^verbatim>\<open>run\<close> (the only call recorded is the
  validation), sets \<^verbatim>\<open>module_status[module_name]\<close> to failed, appends exactly one entry to the
  error log, persists the context and returns
  \<^verbatim>\<open>{"status": "failed", "result": {}, "error": message}\<close>.
\<close>

theorem dispatch_rejects_invalid_input:
  assumes "task_ok tid s" "map_of module_registry name = Some m"
    and "validate_input (heap s) m (cur_context s) = Inr False"
  shows "fst (dispatch_module env name s) =
           Inr \<lparr>status = ''failed'', result = PDict [], error = PStr (validate_error_msg name)\<rparr> \<and>
         trace (snd (dispatch_module env name s)) = trace s @ [CallValidate name (cur_context s)] \<and>
         mstat (snd (dispatch_module env name s)) name = Some (PStr ''failed'') \<and>
         (\<exists>t. error_log_of (snd (dispatch_module env name s)) =
                error_log_of s @ [error_entry name (PStr (validate_error_msg name)) t]) \<and>
         in_sync tid (snd (dispatch_module env name s))"
proof -
  have ok: "task_ok tid (validated m s)" using assms(1) by simp
  note f = mark_failed_ok[OF ok, of env name "validate_error_msg name"]
  from f have k: "kept {''module_status'', ''error_log'', ''update_time''} (validated m s)
     (snd (mark_failed env name (validate_error_msg name) (validated m s)))" by blast
  from f have m: "mstat (snd (mark_failed env name (validate_error_msg name) (validated m s))) =
     (mstat (validated m s))(name \<mapsto> PStr ''failed'')" by blast
  from f obtain t where e: "error_log_of (snd (mark_failed env name (validate_error_msg name) (validated m s))) =
     error_log_of (validated m s) @ [error_entry name (PStr (validate_error_msg name)) t]" by blast
  from f have sy: "in_sync tid (snd (mark_failed env name (validate_error_msg name) (validated m s)))" by blast
  show ?thesis
    unfolding dispatch_validate_false[OF assms]
    using kept_trace[OF k] m e sy registry_name[OF assms(2)]
    by (simp add: failed_outcome_def validated_def) blast
qed

theorem dispatch_rejects_invalid_input_witness:
  "task_ok ''a1b2c3d4'' sample_state \<and>
   map_of module_registry ''story_builder'' = Some StoryBuilderModule \<and>
   validate_input (heap sample_state) StoryBuilderModule (cur_context sample_state) = Inr False \<and>
   fst (dispatch_module raising_env ''story_builder'' sample_state) =
     Inr \<lparr>status = ''failed'', result = PDict [], error = PStr (validate_error_msg ''story_builder'')\<rparr> \<and>
   trace (snd (dispatch_module raising_env ''story_builder'' sample_state)) =
     [CallValidate ''story_builder'' sample_context] \<and>
   mstat (snd (dispatch_module raising_env ''story_builder'' sample_state)) ''story_builder'' = Some (PStr ''failed'')"
proof -
  have r: "map_of module_registry ''story_builder'' = Some StoryBuilderModule"
    by (simp add: module_registry_def)
  have v: "validate_input (heap sample_state) StoryBuilderModule (cur_context sample_state) = Inr False"
    by (simp add: sample_state_def sample_context_def initial_template_def has_key_def sample_input_def)
  have t: "trace sample_state = []" "cur_context sample_state = sample_context"
    by (simp_all add: sample_state_def new_control_plane_def)
  from dispatch_rejects_invalid_input[OF sample_state_ok r v, of raising_env] sample_state_ok r v t
  show ?thesis by simp
qed

lemma dispatch_failed_run_trace:
  assumes "task_ok tid s" "map_of module_registry name = Some m"
    and "validate_input (heap s) m (cur_context s) = Inr True"
    and "run_fails (run_outcome_at env m (PStr tid) s)"
  shows "fst (dispatch_module env name s) = Inr (failed_result_of name (run_outcome_at env m (PStr tid) s))"
    and "trace (snd (dispatch_module env name s)) = trace (ran_state env m (PStr tid) s)"
proof -
  have ok3: "task_ok tid (ran_state env m (PStr tid) s)" by (rule ran_facts(1)[OF assms(1,2)])
  have t1: "\<And>msg. trace (snd (mark_failed env name msg (ran_state env m (PStr tid) s))) =
      trace (ran_state env m (PStr tid) s)"
    using mark_failed_ok[OF ok3] by (simp add: kept_def)
  note r = record_status_ok[OF ok3, of env name "''failed''"]
  from r have t2: "trace (snd (record_status env name ''failed'' (ran_state env m (PStr tid) s))) =
      trace (ran_state env m (PStr tid) s)" by (simp add: kept_def)
  from r have ok4: "task_ok tid (snd (record_status env name ''failed'' (ran_state env m (PStr tid) s)))"
    by blast
  have t3: "\<And>err. trace (snd (log_failure env (PStr tid) name err
       (snd (record_status env name ''failed'' (ran_state env m (PStr tid) s))))) =
      trace (ran_state env m (PStr tid) s)"
    using log_failure_ok[OF ok4] t2 by (simp add: kept_def)
  show "fst (dispatch_module env name s) = Inr (failed_result_of name (run_outcome_at env m (PStr tid) s))"
    using assms(4) unfolding dispatch_validate_true[OF assms(1-3)]
    by (cases "run_outcome_at env m (PStr tid) s") (simp_all add: failed_outcome_def)
  show "trace (snd (dispatch_module env name s)) = trace (ran_state env m (PStr tid) s)"
    using assms(4) t1 t3 unfolding dispatch_validate_true[OF assms(1-3)]
    by (cases "run_outcome_at env m (PStr tid) s") simp_all
qed

text \<open>
  Claim C4. An exception out of \<^verbatim>\<open>run\<close> is caught inside \<^verbatim>\<open>_dispatch_module\<close>: the dispatch
  returns a failed outcome of the same shape as for a module that returns
  \<^verbatim>\<open>{"status": "failed"}\<close> itself; in both cases the module is busy when \<^verbatim>\<open>run\<close> is called
  and failed afterwards, and the error log grows by exactly one entry.
\<close>

theorem failed_run_is_failed_outcome:
  assumes "task_ok tid s" "map_of module_registry name = Some m"
    and "validate_input (heap s) m (cur_context s) = Inr True"
    and "run_fails (run_outcome_at env m (PStr tid) s)"
  shows "fst (dispatch_module env name s) = Inr (failed_result_of name (run_outcome_at env m (PStr tid) s)) \<and>
         status (failed_result_of name (run_outcome_at env m (PStr tid) s)) = ''failed'' \<and>
         trace (snd (dispatch_module env name s)) =
           trace s @ [CallValidate name (cur_context s),
                      CallRun name (PStr tid) (cur_context (busy_state env m s))
                        (run_outcome_at env m (PStr tid) s)] \<and>
         mstat (busy_state env m s) name = Some (PStr ''busy'') \<and>
         mstat (snd (dispatch_module env name s)) name = Some (PStr ''failed'') \<and>
         (\<exists>t. error_log_of (snd (dispatch_module env name s)) =
                error_log_of s @
                  [error_entry name (error (failed_result_of name (run_outcome_at env m (PStr tid) s))) t])"
proof -
  note d = dispatch_failed_run_trace[OF assms]
  have st: "status (failed_result_of name (run_outcome_at env m (PStr tid) s)) = ''failed''"
    using assms(4) by (cases "run_outcome_at env m (PStr tid) s") simp_all
  from dispatch_spec[OF assms(1,2), of env] d(1) st
  have p: "mstat (snd (dispatch_module env name s)) name = Some (PStr ''failed'')"
    "\<exists>t. error_log_of (snd (dispatch_module env name s)) =
                error_log_of s @
                  [error_entry name (error (failed_result_of name (run_outcome_at env m (PStr tid) s))) t]"
    by (simp_all add: dispatch_post_def)
  show ?thesis
    using d st p ran_facts(5)[OF assms(1,2), of env "PStr tid"] busy_facts(4)[OF assms(1,2), of env]
    by simp
qed

theorem failed_run_is_failed_outcome_witness:
  "task_ok ''a1b2c3d4'' story_ready_state \<and>
   map_of module_registry ''story_builder'' = Some StoryBuilderModule \<and>
   validate_input (heap story_ready_state) StoryBuilderModule (cur_context story_ready_state) = Inr True \<and>
   run_fails (run_outcome_at raising_env StoryBuilderModule (PStr ''a1b2c3d4'') story_ready_state) \<and>
   fst (dispatch_module raising_env ''story_builder'' story_ready_state) =
     Inr \<lparr>status = ''failed'', result = PDict [],
          error = PStr (run_error_msg ''story_builder'' (PyException ''service unavailable''))\<rparr> \<and>
   mstat (snd (dispatch_module raising_env ''story_builder'' story_ready_state)) ''story_builder'' =
     Some (PStr ''failed'')"
proof -
  have ok: "task_ok ''a1b2c3d4'' story_ready_state"
    by (simp add: task_ok_def story_ready_state_def sample_state_def sample_context_def
        initial_template_def update_conv')
  have r: "map_of module_registry ''story_builder'' = Some StoryBuilderModule"
    by (simp add: module_registry_def)
  have v: "validate_input (heap story_ready_state) StoryBuilderModule (cur_context story_ready_state) = Inr True"
    by (simp add: story_ready_state_def sample_state_def has_key_map_of update_conv')
  have o: "run_outcome_at raising_env StoryBuilderModule (PStr ''a1b2c3d4'') story_ready_state =
      Raises (PyException ''service unavailable'')"
    by (simp add: run_outcome_at_def raising_env_def)
  then have f: "run_fails (run_outcome_at raising_env StoryBuilderModule (PStr ''a1b2c3d4'') story_ready_state)"
    by simp
  from failed_run_is_failed_outcome[OF ok r v f] ok r v f o
  show ?thesis by simp
qed

text \<open>
  Claim C8 says that every \<^verbatim>\<open>validate_input\<close> returns false, and never raises, when data the
  module needs is missing. \<^verbatim>\<open>DemandInteractModule.validate_input\<close> subscripts
  \<^verbatim>\<open>context["initial_input"]\<close>: on a context without that key it raises \<^verbatim>\<open>KeyError\<close>, and
  on one where the value is \<^verbatim>\<open>None\<close> it raises \<^verbatim>\<open>TypeError\<close>.
\<close>

theorem validate_input_raises:
  "validate_input h DemandInteractModule [(''task_id'', PStr ''a1b2c3d4'')] = Inl (KeyError ''initial_input'') \<and>
   (\<exists>e. validate_input h DemandInteractModule
          [(''task_id'', PStr ''a1b2c3d4''), (''initial_input'', PNone)] = Inl e)"
  by (simp add: getitem_def py_in_def)

subsection \<open>One round of the loop\<close>

lemma dispatch_trace_cases:
  assumes "task_ok tid s" "map_of module_registry name = Some m"
  shows "trace (snd (dispatch_module env name s)) =
     (if validate_input (heap s) m (cur_context s) = Inr True
      then trace (ran_state env m (PStr tid) s) else trace (validated m s))"
proof (cases "validate_input (heap s) m (cur_context s)")
  case (Inl e)
  then show ?thesis unfolding dispatch_validate_raises[OF assms Inl] by simp
next
  case (Inr b)
  show ?thesis
  proof (cases b)
    case False
    with Inr have v: "validate_input (heap s) m (cur_context s) = Inr False" by simp
    have ok: "task_ok tid (validated m s)" using assms(1) by simp
    show ?thesis unfolding dispatch_validate_false[OF assms v]
      using mark_failed_ok[OF ok, of env name "validate_error_msg name"] v by (simp add: kept_def)
  next
    case True
    with Inr have v: "validate_input (heap s) m (cur_context s) = Inr True" by simp
    have ok3: "task_ok tid (ran_state env m (PStr tid) s)" by (rule ran_facts(1)[OF assms])
    have t1: "\<And>msg. trace (snd (mark_failed env name msg (ran_state env m (PStr tid) s))) =
        trace (ran_state env m (PStr tid) s)"
      using mark_failed_ok[OF ok3] by (simp add: kept_def)
    have r: "\<And>v. trace (snd (record_status env name v (ran_state env m (PStr tid) s))) =
        trace (ran_state env m (PStr tid) s)"
      "\<And>v. task_ok tid (snd (record_status env name v (ran_state env m (PStr tid) s)))"
      using record_status_ok[OF ok3] by (simp_all add: kept_def)
    have t3: "\<And>err. trace (snd (log_failure env (PStr tid) name err
         (snd (record_status env name ''failed'' (ran_state env m (PStr tid) s))))) =
        trace (ran_state env m (PStr tid) s)"
      using log_failure_ok[OF r(2)] r(1) by (simp add: kept_def)
    show ?thesis unfolding dispatch_validate_true[OF assms v]
      using v t1 r(1) t3
      by (cases "run_outcome_at env m (PStr tid) s") simp_all
  qed
qed

lemma dispatch_outcome_last:
  assumes "task_ok tid s" "map_of module_registry name = Some m"
    and "fst (dispatch_module env name s) = Inr out"
  shows "out = outcome_for name (last (trace (snd (dispatch_module env name s))))"
proof (cases "validate_input (heap s) m (cur_context s)")
  case (Inl e)
  with assms(3) show ?thesis unfolding dispatch_validate_raises[OF assms(1,2) Inl] by simp
next
  case (Inr b)
  show ?thesis
  proof (cases b)
    case False
    with Inr have v: "validate_input (heap s) m (cur_context s) = Inr False" by simp
    have o: "out = failed_outcome (validate_error_msg name)"
      using assms(3) unfolding dispatch_validate_false[OF assms(1,2) v] by simp
    show ?thesis unfolding dispatch_trace_cases[OF assms(1,2)] using v o
      by (simp add: validated_def)
  next
    case True
    with Inr have v: "validate_input (heap s) m (cur_context s) = Inr True" by simp
    have o: "out = failed_result_of name (run_outcome_at env m (PStr tid) s)"
      using assms(3) unfolding dispatch_validate_true[OF assms(1,2) v]
      by (cases "run_outcome_at env m (PStr tid) s") (auto simp: failed_outcome_def)
    show ?thesis unfolding dispatch_trace_cases[OF assms(1,2)] using v o
      by (simp add: ran_facts(5)[OF assms(1,2)])
  qed
qed

lemma info_key_neq:
  "name @ ''_info'' \<noteq> ''task_id''" "name @ ''_info'' \<noteq> ''module_status''"
  "name @ ''_info'' \<noteq> ''error_log''" "name @ ''_info'' \<noteq> ''update_time''"
  "name @ ''_info'' \<noteq> ''task_status''" "name @ ''_info'' \<noteq> ''user_feedback''"
  "name @ ''_info'' \<noteq> ''current_step''" "name @ ''_info'' \<noteq> ''progress''"
proof -
  have l: "\<And>k. name @ ''_info'' = k \<Longrightarrow> last k = CHR ''o''" by auto
  show "name @ ''_info'' \<noteq> ''task_id''" "name @ ''_info'' \<noteq> ''module_status''"
  "name @ ''_info'' \<noteq> ''error_log''" "name @ ''_info'' \<noteq> ''update_time''"
  "name @ ''_info'' \<noteq> ''task_status''" "name @ ''_info'' \<noteq> ''user_feedback''"
  "name @ ''_info'' \<noteq> ''current_step''" "name @ ''_info'' \<noteq> ''progress''"
    using l[of "''task_id''"] l[of "''module_status''"] l[of "''error_log''"] l[of "''update_time''"]
      l[of "''task_status''"] l[of "''user_feedback''"] l[of "''current_step''"] l[of "''progress''"]
    by auto
qed

lemma store_result_ok:
  assumes "task_ok tid s"
  shows "fst (store_result env name v s) = Inr ()"
    and "task_ok tid (snd (store_result env name v s))"
    and "in_sync tid (snd (store_result env name v s))"
    and "kept {name @ ''_info'', ''update_time''} s (snd (store_result env name v s))"
    and "mstat (snd (store_result env name v s)) = mstat s"
    and "error_log_of (snd (store_result env name v s)) = error_log_of s"
    and "map_of (cur_context (snd (store_result env name v s))) (name @ ''_info'') = Some v"
  using update_plain_ok[OF assms info_key_neq(1,2,3)] info_key_neq(4)
  by (simp_all add: store_result_def)

lemma mark_task_failed_ok:
  assumes "task_ok tid s"
  shows "fst (update_context env [(''task_status'', PStr ''failed'')] s) = Inr ()"
    and "task_ok tid (snd (update_context env [(''task_status'', PStr ''failed'')] s))"
    and "in_sync tid (snd (update_context env [(''task_status'', PStr ''failed'')] s))"
    and "kept {''task_status'', ''update_time''} s (snd (update_context env [(''task_status'', PStr ''failed'')] s))"
    and "mstat (snd (update_context env [(''task_status'', PStr ''failed'')] s)) = mstat s"
    and "error_log_of (snd (update_context env [(''task_status'', PStr ''failed'')] s)) = error_log_of s"
    and "map_of (cur_context (snd (update_context env [(''task_status'', PStr ''failed'')] s))) ''task_status'' = Some (PStr ''failed'')"
  using update_plain_ok[OF assms, where k = "''task_status''"]
  by simp_all

lemma inject_feedback_facts:
  "fst (inject_feedback fb s) = Inr ()"
  "task_ok tid (snd (inject_feedback fb s)) = task_ok tid s"
  "kept {''user_feedback''} s (snd (inject_feedback fb s))"
  "mstat (snd (inject_feedback fb s)) = mstat s"
  "error_log_of (snd (inject_feedback fb s)) = error_log_of s"
  "map_of (cur_context (snd (inject_feedback fb s))) ''user_feedback'' =
     (if fb \<noteq> [] then Some (PStr fb) else map_of (cur_context s) ''user_feedback'')"
  by (simp_all add: inject_feedback_def modify_context_def ret_def task_ok_def kept_def mstat_def
      error_log_of_def update_conv' fun_eq_iff split: option.split pyval.split)

lemma clear_feedback_facts:
  "fst (clear_feedback s) = Inr ()"
  "task_ok tid (snd (clear_feedback s)) = task_ok tid s"
  "kept {''user_feedback''} s (snd (clear_feedback s))"
  "mstat (snd (clear_feedback s)) = mstat s"
  "error_log_of (snd (clear_feedback s)) = error_log_of s"
  "map_of (cur_context (snd (clear_feedback s))) ''user_feedback'' = None"
  by (simp_all add: clear_feedback_def modify_context_def task_ok_def kept_def mstat_def
      error_log_of_def delete_conv' has_key_map_of fun_eq_iff split: option.split pyval.split)

lemma step_frame_refl: "step_frame K name s s"
  by (simp add: step_frame_def kept_slots_refl)

lemma step_frame_trans:
  "step_frame K name s s1 \<Longrightarrow> step_frame K name s1 s2 \<Longrightarrow> step_frame K name s s2"
  by (auto simp: step_frame_def kept_slots_def)

lemma step_frame_mono: "step_frame K name s s' \<Longrightarrow> K \<subseteq> K' \<Longrightarrow> step_frame K' name s s'"
  by (auto simp: step_frame_def kept_slots_def)

lemma step_frame_kept:
  "kept K s s' \<Longrightarrow> mstat s' = mstat s \<Longrightarrow> step_frame K name s s'"
  by (simp add: step_frame_def kept_def kept_slots_def)

lemma step_frame_world [simp]: "step_frame K name s (s\<lparr>world := w\<rparr>)"
  by (simp add: step_frame_def kept_slots_def)

lemma step_frame_dispatch:
  "dispatch_post tid name s r s' \<Longrightarrow> step_frame dispatch_keys name s s'"
  by (auto simp: dispatch_post_def step_frame_def)

lemma step_frame_slot:
  "step_frame K name s s' \<Longrightarrow> k \<notin> K \<Longrightarrow> map_of (cur_context s') k = map_of (cur_context s) k"
  by (simp add: step_frame_def kept_slots_def)

lemma step_frame_trace_last:
  "kept K s s' \<Longrightarrow> trace s' = trace s"
  by (simp add: kept_def)

lemma dispatch_keys_sub: "dispatch_keys \<subseteq> step_keys name" "{''user_feedback''} \<subseteq> step_keys name"
  "{''task_status'', ''update_time''} \<subseteq> step_keys name"
  "{name @ ''_info'', ''update_time''} \<subseteq> step_keys name"
  "{''task_status'', ''error_log'', ''update_time''} \<subseteq> step_keys name"
  by (auto simp: step_keys_def dispatch_keys_def)

lemma revise_spec:
  assumes ok: "task_ok tid s" and reg: "map_of module_registry name = Some m"
  shows "step_post tid name s (fst (revise env (PStr tid) name s)) (snd (revise env (PStr tid) name s))"
proof (cases "fst (input_feedback env (world s))")
  case (Inl e)
  then have "revise env (PStr tid) name s = (Inl e, s\<lparr>world := snd (input_feedback env (world s))\<rparr>)"
    by (simp add: revise_def pbind_def call_input_feedback_def case_prod_beta)
  then show ?thesis by (simp add: step_post_def)
next
  case (Inr fb)
  define s0 where "s0 = s\<lparr>world := snd (input_feedback env (world s))\<rparr>"
  define s1 where "s1 = snd (inject_feedback fb s0)"
  define d where "d = dispatch_module env name s1"
  have ok1: "task_ok tid s1" using ok by (simp add: s1_def s0_def inject_feedback_facts)
  have f01: "step_frame (step_keys name) name s s1"
    unfolding s1_def s0_def
    by (rule step_frame_mono[OF step_frame_trans[OF step_frame_world
          step_frame_kept[OF inject_feedback_facts(3) inject_feedback_facts(4)]] dispatch_keys_sub(2)])
  note dp = dispatch_spec[OF ok1 reg, of env, folded d_def]
  have f1d: "step_frame (step_keys name) name s1 (snd d)"
    by (rule step_frame_mono[OF step_frame_dispatch[OF dp] dispatch_keys_sub(1)])
  have fsd: "step_frame (step_keys name) name s (snd d)" by (rule step_frame_trans[OF f01 f1d])
  have r1: "revise env (PStr tid) name s =
      (case fst d of Inl e \<Rightarrow> (Inl e, snd d)
       | Inr out \<Rightarrow>
          (pbind clear_feedback (\<lambda>_.
             if status out = ''failed'' then
               pbind (update_context env [(''task_status'', PStr ''failed'')]) (\<lambda>_.
               pbind get_context (\<lambda>final_context.
               ret (Some (failure_result (PStr tid) name (error out) final_context))))
             else
               pbind (store_result env name (result out)) (\<lambda>_. ret None))) (snd d))"
    using Inr
    by (simp add: revise_def pbind_def call_input_feedback_def case_prod_beta inject_feedback_facts(1)
        d_def s1_def s0_def split: sum.split)
  show ?thesis
  proof (cases "fst d")
    case (Inl e)
    then have "revise env (PStr tid) name s = (Inl e, snd d)" using r1 by simp
    then show ?thesis using fsd by (simp add: step_post_def)
  next
    case out: (Inr out)
    define s3 where "s3 = snd (clear_feedback (snd d))"
    from dp out have okd: "task_ok tid (snd d)" by (simp add: dispatch_post_def)
    have ok3: "task_ok tid s3" using okd by (simp add: s3_def clear_feedback_facts)
    have fd3: "step_frame (step_keys name) name (snd d) s3"
      unfolding s3_def
      by (rule step_frame_mono[OF step_frame_kept[OF clear_feedback_facts(3) clear_feedback_facts(4)]
            dispatch_keys_sub(2)])
    have fs3: "step_frame (step_keys name) name s s3" by (rule step_frame_trans[OF fsd fd3])
    have uf3: "map_of (cur_context s3) ''user_feedback'' = None"
      by (simp add: s3_def clear_feedback_facts)
    have tr3: "trace s3 = trace (snd d)"
      using clear_feedback_facts(3)[of "snd d"] by (simp add: s3_def kept_def)
    have ms3: "mstat s3 = mstat (snd d)" by (simp add: s3_def clear_feedback_facts)
    have ol: "out = outcome_for name (last (trace (snd d)))"
      using dispatch_outcome_last[OF ok1 reg, of env out] out by (simp add: d_def)
    show ?thesis
    proof (cases "status out = ''failed''")
      case True
      define s4 where "s4 = snd (update_context env [(''task_status'', PStr ''failed'')] s3)"
      note u = mark_task_failed_ok[OF ok3, where env = env, folded s4_def]
      have rv: "revise env (PStr tid) name s =
          (Inr (Some (failure_result (PStr tid) name (error out) (cur_context s4))), s4)"
        using r1 out True u(1)
        by (simp add: pbind_def clear_feedback_facts(1) case_prod_beta s3_def[symmetric] s4_def
            get_context_def ret_def)
      have f34: "step_frame (step_keys name) name s3 s4"
        by (rule step_frame_mono[OF step_frame_kept[OF u(4) u(5)] dispatch_keys_sub(3)])
      have fs4: "step_frame (step_keys name) name s s4" by (rule step_frame_trans[OF fs3 f34])
      have tr4: "trace s4 = trace (snd d)" using u(4) tr3 by (simp add: kept_def)
      have uf4: "map_of (cur_context s4) ''user_feedback'' = None"
        using u(4) uf3 by (simp add: kept_def)
      from dp out True have "mstat (snd d) name = Some (PStr ''failed'')"
        by (simp add: dispatch_post_def)
      then have ms4: "mstat s4 name = Some (PStr ''failed'')" using u(5) ms3 by simp
      show ?thesis
        unfolding rv step_post_def
        using fs4 u(3) u(7) uf4 ms4 tr4 ol True by simp
    next
      case False
      define s4 where "s4 = snd (store_result env name (result out) s3)"
      note u = store_result_ok[OF ok3, where env = env and name = name and v = "result out", folded s4_def]
      have rv: "revise env (PStr tid) name s = (Inr None, s4)"
        using r1 out False u(1)
        by (simp add: pbind_def clear_feedback_facts(1) case_prod_beta s3_def[symmetric] s4_def ret_def)
      have f34: "step_frame (step_keys name) name s3 s4"
        by (rule step_frame_mono[OF step_frame_kept[OF u(4) u(5)] dispatch_keys_sub(4)])
      have fs4: "step_frame (step_keys name) name s s4" by (rule step_frame_trans[OF fs3 f34])
      have uf4: "map_of (cur_context s4) ''user_feedback'' = None"
        using u(4) uf3 info_key_neq(6)[of name] by (simp add: kept_def)
      show ?thesis
        unfolding rv step_post_def
        using fs4 u(2) u(3) u(7) uf4 by simp
    qed
  qed
qed

lemma fail_task_status:
  assumes "task_ok tid s"
  shows "map_of (cur_context (snd (fail_task env name err s))) ''task_status'' = Some (PStr ''failed'')"
proof -
  from assms(1) obtain kvs a where *: "map_of (cur_context s) ''task_id'' = Some (PStr tid)"
    "map_of (cur_context s) ''module_status'' = Some (PDict kvs)"
    "map_of (cur_context s) ''error_log'' = Some (PRef a)" by (rule task_ok_D)
  show ?thesis using *
    by (simp add: fail_task_def run_simps)
qed

lemma step_post_compose:
  assumes "step_frame (step_keys name) name s s1"
    and "map_of (cur_context s) ''user_feedback'' = None \<longrightarrow> map_of (cur_context s1) ''user_feedback'' = None"
    and "step_post tid name s1 r s'"
  shows "step_post tid name s r s'"
  using assms step_frame_trans[OF assms(1), of s']
  by (simp add: step_post_def)

lemma first_half_keys:
  "''user_feedback'' \<notin> dispatch_keys \<union> {name @ ''_info'', ''update_time''}"
  "dispatch_keys \<union> {name @ ''_info'', ''update_time''} \<subseteq> step_keys name"
  using info_key_neq(6)[of name] by (auto simp: dispatch_keys_def step_keys_def)

lemma run_step_spec:
  assumes ok: "task_ok tid s" and reg: "map_of module_registry name = Some m"
  shows "step_post tid name s (fst (run_step env (PStr tid) name s)) (snd (run_step env (PStr tid) name s))"
proof -
  define d where "d = dispatch_module env name s"
  note dp = dispatch_spec[OF ok reg, of env, folded d_def]
  have fsd0: "step_frame dispatch_keys name s (snd d)" by (rule step_frame_dispatch[OF dp])
  have fsd: "step_frame (step_keys name) name s (snd d)"
    by (rule step_frame_mono[OF fsd0 dispatch_keys_sub(1)])
  show ?thesis
  proof (cases "fst d")
    case (Inl e)
    then have "run_step env (PStr tid) name s = (Inl e, snd d)"
      by (simp add: run_step_def pbind_def case_prod_beta d_def)
    then show ?thesis using fsd by (simp add: step_post_def)
  next
    case out: (Inr out)
    from dp out have okd: "task_ok tid (snd d)" by (simp add: dispatch_post_def)
    have ol: "out = outcome_for name (last (trace (snd d)))"
      using dispatch_outcome_last[OF ok reg, of env out] out by (simp add: d_def)
    have ufd: "map_of (cur_context (snd d)) ''user_feedback'' = map_of (cur_context s) ''user_feedback''"
      by (rule step_frame_slot[OF fsd0]) (simp add: dispatch_keys_def)
    show ?thesis
    proof (cases "status out = ''failed''")
      case True
      define s2 where "s2 = snd (fail_task env name (error out) (snd d))"
      note u = fail_task_ok[OF okd, where env = env and name = name and err = "error out", folded s2_def]
      from u have u1: "fst (fail_task env name (error out) (snd d)) = Inr ()" by blast
      from u have uk: "kept {''task_status'', ''error_log'', ''update_time''} (snd d) s2" by blast
      from u have um: "mstat s2 = mstat (snd d)" by blast
      from u have us: "in_sync tid s2" by blast
      have ut: "map_of (cur_context s2) ''task_status'' = Some (PStr ''failed'')"
        unfolding s2_def by (rule fail_task_status[OF okd])
      have rv: "run_step env (PStr tid) name s =
          (Inr (Some (failure_result (PStr tid) name (error out) (cur_context s2))), s2)"
        using out True u1
        by (simp add: run_step_def pbind_def case_prod_beta d_def[symmetric] s2_def get_context_def ret_def)
      have f2: "step_frame (step_keys name) name (snd d) s2"
        by (rule step_frame_mono[OF step_frame_kept[OF uk um] dispatch_keys_sub(5)])
      have fs2: "step_frame (step_keys name) name s s2" by (rule step_frame_trans[OF fsd f2])
      have tr2: "trace s2 = trace (snd d)" using uk by (simp add: kept_def)
      have uf2: "map_of (cur_context s2) ''user_feedback'' = map_of (cur_context s) ''user_feedback''"
        using uk ufd by (simp add: kept_def)
      from dp out True have "mstat (snd d) name = Some (PStr ''failed'')"
        by (simp add: dispatch_post_def)
      then have ms2: "mstat s2 name = Some (PStr ''failed'')" using um by simp
      show ?thesis
        unfolding rv step_post_def
        using fs2 us ut uf2 ms2 tr2 ol True by simp
    next
      case False
      define s2 where "s2 = snd (store_result env name (result out) (snd d))"
      note u = store_result_ok[OF okd, where env = env and name = name and v = "result out", folded s2_def]
      have f2k: "step_frame (dispatch_keys \<union> {name @ ''_info'', ''update_time''}) name s s2"
        by (rule step_frame_trans[OF step_frame_mono[OF fsd0] step_frame_mono[OF step_frame_kept[OF u(4) u(5)]]])
           auto
      have fs2: "step_frame (step_keys name) name s s2"
        by (rule step_frame_mono[OF f2k first_half_keys(2)])
      have uf2: "map_of (cur_context s2) ''user_feedback'' = map_of (cur_context s) ''user_feedback''"
        by (rule step_frame_slot[OF f2k first_half_keys(1)])
      have r1: "run_step env (PStr tid) name s =
         (if check_pause_node name then
            (let prompt = (if name = ''story_builder'' then prompt_story else prompt_storyboard)
             in pbind (call_user_confirm env prompt) (\<lambda>confirmed.
                  if confirmed then ret None else revise env (PStr tid) name))
          else ret None) s2"
        using out False u(1)
        by (simp add: run_step_def pbind_def case_prod_beta d_def[symmetric] s2_def)
      show ?thesis
      proof (cases "check_pause_node name")
        case False
        then have rv: "run_step env (PStr tid) name s = (Inr None, s2)" using r1 by (simp add: ret_def)
        show ?thesis unfolding rv step_post_def using fs2 u(2) u(3) u(7) uf2 by simp
      next
        case True
        define c where "c = user_confirm env (if name = ''story_builder'' then prompt_story else prompt_storyboard) (world s2)"
        define s3 where "s3 = s2\<lparr>world := snd c\<rparr>"
        have f3: "step_frame (step_keys name) name s s3"
          unfolding s3_def by (rule step_frame_trans[OF fs2 step_frame_world])
        have ok3: "task_ok tid s3" using u(2) by (simp add: s3_def)
        have sy3: "in_sync tid s3" using u(3) by (simp add: s3_def)
        have uf3: "map_of (cur_context s3) ''user_feedback'' = map_of (cur_context s) ''user_feedback''"
          using uf2 by (simp add: s3_def)
        have in3: "map_of (cur_context s3) (name @ ''_info'') \<noteq> None" using u(7) by (simp add: s3_def)
        have r2: "run_step env (PStr tid) name s =
           (case fst c of Inl e \<Rightarrow> (Inl e, s3)
            | Inr confirmed \<Rightarrow> if confirmed then (Inr None, s3) else revise env (PStr tid) name s3)"
          using r1 True
          by (simp add: pbind_def call_user_confirm_def case_prod_beta c_def s3_def ret_def Let_def
              split: sum.split)
        show ?thesis
        proof (cases "fst c")
          case (Inl e)
          then have rv: "run_step env (PStr tid) name s = (Inl e, s3)" using r2 by simp
          show ?thesis unfolding rv step_post_def using f3 by simp
        next
          case (Inr confirmed)
          show ?thesis
          proof (cases confirmed)
            case True
            then have rv: "run_step env (PStr tid) name s = (Inr None, s3)" using r2 Inr by simp
            show ?thesis unfolding rv step_post_def using f3 ok3 sy3 uf3 in3 by simp
          next
            case False
            then have rv: "run_step env (PStr tid) name s = revise env (PStr tid) name s3"
              using r2 Inr by simp
            show ?thesis
              unfolding rv
              by (rule step_post_compose[OF f3 _ revise_spec[OF ok3 reg]]) (simp add: uf3)
          qed
        qed
      qed
    qed
  qed
qed

subsection \<open>The error log of a failed attempt\<close>

lemma run_step_failed_eq:
  assumes ok: "task_ok tid s" and reg: "map_of module_registry name = Some m"
    and out: "fst (dispatch_module env name s) = Inr out" and failed: "status out = ''failed''"
  shows "run_step env (PStr tid) name s =
     (Inr (Some (failure_result (PStr tid) name (error out)
                   (cur_context (snd (fail_task env name (error out) (snd (dispatch_module env name s))))))),
      snd (fail_task env name (error out) (snd (dispatch_module env name s))))"
proof -
  from dispatch_spec[OF ok reg, of env] out have okd: "task_ok tid (snd (dispatch_module env name s))"
    by (simp add: dispatch_post_def)
  from fail_task_ok[OF okd, where env = env and name = name and err = "error out"]
  have u1: "fst (fail_task env name (error out) (snd (dispatch_module env name s))) = Inr ()" by blast
  show ?thesis using out failed u1
    by (simp add: run_step_def pbind_def case_prod_beta get_context_def ret_def)
qed

lemma run_step_failed_log:
  assumes ok: "task_ok tid s" and reg: "map_of module_registry name = Some m"
    and out: "fst (dispatch_module env name s) = Inr out" and failed: "status out = ''failed''"
  shows "\<exists>t1 t2. error_log_of (snd (run_step env (PStr tid) name s)) =
           error_log_of s @ [error_entry name (error out) t1, error_entry name (error out) t2]"
    and "trace (snd (run_step env (PStr tid) name s)) = trace (snd (dispatch_module env name s))"
    and "map_of (cur_context (snd (run_step env (PStr tid) name s))) ''task_status'' = Some (PStr ''failed'')"
    and "mstat (snd (run_step env (PStr tid) name s)) = mstat (snd (dispatch_module env name s))"
proof -
  from dispatch_spec[OF ok reg, of env] out failed
  have okd: "task_ok tid (snd (dispatch_module env name s))"
    and "\<exists>t. error_log_of (snd (dispatch_module env name s)) = error_log_of s @ [error_entry name (error out) t]"
    by (simp_all add: dispatch_post_def)
  then obtain t1 where e1: "error_log_of (snd (dispatch_module env name s)) =
      error_log_of s @ [error_entry name (error out) t1]" by blast
  note f = fail_task_ok[OF okd, where env = env and name = name and err = "error out"]
  from f obtain t2 where e2: "error_log_of (snd (fail_task env name (error out) (snd (dispatch_module env name s)))) =
      error_log_of (snd (dispatch_module env name s)) @ [error_entry name (error out) t2]" by blast
  show "\<exists>t1 t2. error_log_of (snd (run_step env (PStr tid) name s)) =
           error_log_of s @ [error_entry name (error out) t1, error_entry name (error out) t2]"
    unfolding run_step_failed_eq[OF assms] using e1 e2 by simp blast
  show "trace (snd (run_step env (PStr tid) name s)) = trace (snd (dispatch_module env name s))"
    unfolding run_step_failed_eq[OF assms] using f by (simp add: kept_def)
  show "map_of (cur_context (snd (run_step env (PStr tid) name s))) ''task_status'' = Some (PStr ''failed'')"
    unfolding run_step_failed_eq[OF assms] using fail_task_status[OF okd, of env name "error out"] by simp
  show "mstat (snd (run_step env (PStr tid) name s)) = mstat (snd (dispatch_module env name s))"
    unfolding run_step_failed_eq[OF assms] using f by simp
qed

lemma revise_failed_log:
  assumes ok: "task_ok tid s" and reg: "map_of module_registry name = Some m"
    and fb: "fst (input_feedback env (world s)) = Inr fb"
    and out: "fst (dispatch_module env name (revision_state env fb s)) = Inr out"
    and failed: "status out = ''failed''"
  shows "\<exists>t. error_log_of (snd (revise env (PStr tid) name s)) = error_log_of s @ [error_entry name (error out) t]"
    and "mstat (snd (revise env (PStr tid) name s)) name = Some (PStr ''failed'')"
    and "map_of (cur_context (snd (revise env (PStr tid) name s))) ''task_status'' = Some (PStr ''failed'')"
proof -
  define s1 where "s1 = revision_state env fb s"
  define d where "d = dispatch_module env name s1"
  define s3 where "s3 = snd (clear_feedback (snd d))"
  have ok1: "task_ok tid s1" using ok by (simp add: s1_def revision_state_def inject_feedback_facts)
  have e0: "error_log_of s1 = error_log_of s" by (simp add: s1_def revision_state_def inject_feedback_facts)
  from dispatch_spec[OF ok1 reg, of env, folded d_def] out failed
  have okd: "task_ok tid (snd d)"
    and md: "mstat (snd d) name = Some (PStr ''failed'')"
    and "\<exists>t. error_log_of (snd d) = error_log_of s1 @ [error_entry name (error out) t]"
    by (simp_all add: dispatch_post_def d_def s1_def)
  then obtain t where e1: "error_log_of (snd d) = error_log_of s1 @ [error_entry name (error out) t]"
    by blast
  have ok3: "task_ok tid s3" using okd by (simp add: s3_def clear_feedback_facts)
  have e3: "error_log_of s3 = error_log_of (snd d)" by (simp add: s3_def clear_feedback_facts)
  note u = mark_task_failed_ok[OF ok3, where env = env]
  have rv: "snd (revise env (PStr tid) name s) =
      snd (update_context env [(''task_status'', PStr ''failed'')] s3)"
    using fb out failed u(1)
    by (simp add: revise_def pbind_def call_input_feedback_def case_prod_beta inject_feedback_facts(1)
        clear_feedback_facts(1) d_def s1_def s3_def revision_state_def get_context_def ret_def)
  have m3: "mstat s3 = mstat (snd d)" by (simp add: s3_def clear_feedback_facts)
  show "\<exists>t. error_log_of (snd (revise env (PStr tid) name s)) = error_log_of s @ [error_entry name (error out) t]"
    unfolding rv using u(6) e3 e1 e0 by simp blast
  show "mstat (snd (revise env (PStr tid) name s)) name = Some (PStr ''failed'')"
    unfolding rv using u(5) m3 md by simp
  show "map_of (cur_context (snd (revise env (PStr tid) name s))) ''task_status'' = Some (PStr ''failed'')"
    unfolding rv by (rule u(7))
qed

lemma story_ready_facts:
  "task_ok ''a1b2c3d4'' story_ready_state"
  "map_of module_registry ''story_builder'' = Some StoryBuilderModule"
  "validate_input h StoryBuilderModule (cur_context story_ready_state) = Inr True"
  "run_outcome_at raising_env StoryBuilderModule (PStr ''a1b2c3d4'') s =
      Raises (PyException ''service unavailable'')"
  "error_log_of story_ready_state = []"
  "trace story_ready_state = []"
  "world story_ready_state = ()"
  "input_feedback raising_env w = (Inr [], w)"
  "revision_state raising_env [] story_ready_state = story_ready_state"
proof -
  show "task_ok ''a1b2c3d4'' story_ready_state"
    by (simp add: task_ok_def story_ready_state_def sample_state_def sample_context_def
        initial_template_def update_conv')
  show "map_of module_registry ''story_builder'' = Some StoryBuilderModule"
    by (simp add: module_registry_def)
  show "validate_input h StoryBuilderModule (cur_context story_ready_state) = Inr True"
    by (simp add: story_ready_state_def sample_state_def has_key_map_of update_conv')
  show "run_outcome_at raising_env StoryBuilderModule (PStr ''a1b2c3d4'') s =
      Raises (PyException ''service unavailable'')"
    by (simp add: run_outcome_at_def raising_env_def)
  show "error_log_of story_ready_state = []"
    by (simp add: error_log_of_def story_ready_state_def sample_state_def sample_context_def
        initial_template_def update_conv' new_control_plane_def)
  show "trace story_ready_state = []" "world story_ready_state = ()"
    by (simp_all add: story_ready_state_def sample_state_def new_control_plane_def)
  show "input_feedback raising_env w = (Inr [], w)" by (simp add: raising_env_def)
  show "revision_state raising_env [] story_ready_state = story_ready_state"
    by (simp add: revision_state_def inject_feedback_def ret_def)
qed

lemma story_ready_dispatch:
  "fst (dispatch_module raising_env ''story_builder'' story_ready_state) =
     Inr \<lparr>status = ''failed'', result = PDict [],
          error = PStr (run_error_msg ''story_builder'' (PyException ''service unavailable''))\<rparr>"
  "trace (snd (dispatch_module raising_env ''story_builder'' story_ready_state)) =
     [CallValidate ''story_builder'' (cur_context story_ready_state),
      CallRun ''story_builder'' (PStr ''a1b2c3d4'')
        (cur_context (busy_state raising_env StoryBuilderModule story_ready_state))
        (Raises (PyException ''service unavailable''))]"
proof -
  have f: "run_fails (run_outcome_at raising_env StoryBuilderModule (PStr ''a1b2c3d4'') story_ready_state)"
    by (simp add: story_ready_facts(4))
  note d = dispatch_failed_run_trace[OF story_ready_facts(1,2,3) f]
  show "fst (dispatch_module raising_env ''story_builder'' story_ready_state) =
     Inr \<lparr>status = ''failed'', result = PDict [],
          error = PStr (run_error_msg ''story_builder'' (PyException ''service unavailable''))\<rparr>"
    using d(1) by (simp add: story_ready_facts(4))
  show "trace (snd (dispatch_module raising_env ''story_builder'' story_ready_state)) =
     [CallValidate ''story_builder'' (cur_context story_ready_state),
      CallRun ''story_builder'' (PStr ''a1b2c3d4'')
        (cur_context (busy_state raising_env StoryBuilderModule story_ready_state))
        (Raises (PyException ''service unavailable''))]"
    using d(2) ran_facts(5)[OF story_ready_facts(1,2), of raising_env "PStr ''a1b2c3d4''"]
    by (simp add: story_ready_facts)
qed

text \<open>
  Claim C5, as the code has it. Take a module attempt for which \<^verbatim>\<open>_dispatch_module\<close> returns a
  failed outcome. The dispatch appends exactly one entry to the error log, with the step
  name, the error and the time, and leaves the task status as it is; the status of the module
  becomes failed there, once: it was busy in the context handed to \<^verbatim>\<open>run\<close> when the input
  was valid, and the rest of the round does not write it again. In the main loop of
  \<^verbatim>\<open>run_ad_task\<close> the round then appends a second entry for the same failure, in the update
  that marks the task failed. When the attempt is the second dispatch of a revision, the
  round appends nothing more: the log holds the one entry of the dispatch.
\<close>

theorem failed_attempt_log_entries:
  assumes "task_ok tid s" "map_of module_registry name = Some m"
  shows "(\<forall>out. fst (dispatch_module env name s) = Inr out \<longrightarrow> status out = ''failed'' \<longrightarrow>
            (\<exists>t. error_log_of (snd (dispatch_module env name s)) =
                   error_log_of s @ [error_entry name (error out) t]) \<and>
            mstat (snd (dispatch_module env name s)) name = Some (PStr ''failed'') \<and>
            (validate_input (heap s) m (cur_context s) = Inr True \<longrightarrow>
               mstat (busy_state env m s) name = Some (PStr ''busy'')) \<and>
            map_of (cur_context (snd (dispatch_module env name s))) ''task_status'' =
              map_of (cur_context s) ''task_status'' \<and>
            (\<exists>t1 t2. error_log_of (snd (run_step env (PStr tid) name s)) =
                   error_log_of s @ [error_entry name (error out) t1, error_entry name (error out) t2]) \<and>
            mstat (snd (run_step env (PStr tid) name s)) = mstat (snd (dispatch_module env name s)) \<and>
            map_of (cur_context (snd (run_step env (PStr tid) name s))) ''task_status'' =
              Some (PStr ''failed'')) \<and>
         (\<forall>fb out. fst (input_feedback env (world s)) = Inr fb \<longrightarrow>
            fst (dispatch_module env name (revision_state env fb s)) = Inr out \<longrightarrow>
            status out = ''failed'' \<longrightarrow>
            (\<exists>t. error_log_of (snd (revise env (PStr tid) name s)) =
                   error_log_of s @ [error_entry name (error out) t]) \<and>
            mstat (snd (revise env (PStr tid) name s)) name = Some (PStr ''failed'') \<and>
            map_of (cur_context (snd (revise env (PStr tid) name s))) ''task_status'' =
              Some (PStr ''failed''))"
proof (intro conjI allI impI)
  fix out assume o: "fst (dispatch_module env name s) = Inr out" and f: "status out = ''failed''"
  from dispatch_spec[OF assms, of env] o f
  have d: "\<exists>t. error_log_of (snd (dispatch_module env name s)) =
                error_log_of s @ [error_entry name (error out) t]"
    "mstat (snd (dispatch_module env name s)) name = Some (PStr ''failed'')"
    "kept_slots dispatch_keys s (snd (dispatch_module env name s))"
    by (simp_all add: dispatch_post_def)
  show "\<exists>t. error_log_of (snd (dispatch_module env name s)) =
                error_log_of s @ [error_entry name (error out) t]" by (rule d(1))
  show "mstat (snd (dispatch_module env name s)) name = Some (PStr ''failed'')" by (rule d(2))
  show "mstat (busy_state env m s) name = Some (PStr ''busy'')"
    by (simp add: busy_facts(4)[OF assms])
  show "map_of (cur_context (snd (dispatch_module env name s))) ''task_status'' =
           map_of (cur_context s) ''task_status''"
    using d(3) by (simp add: kept_slots_def dispatch_keys_def)
  note l = run_step_failed_log[OF assms o f]
  show "\<exists>t1 t2. error_log_of (snd (run_step env (PStr tid) name s)) =
                   error_log_of s @ [error_entry name (error out) t1, error_entry name (error out) t2]"
    by (rule l(1))
  show "mstat (snd (run_step env (PStr tid) name s)) = mstat (snd (dispatch_module env name s))"
    by (rule l(4))
  show "map_of (cur_context (snd (run_step env (PStr tid) name s))) ''task_status'' =
              Some (PStr ''failed'')" by (rule l(3))
next
  fix fb out assume a: "fst (input_feedback env (world s)) = Inr fb"
    "fst (dispatch_module env name (revision_state env fb s)) = Inr out" "status out = ''failed''"
  note r = revise_failed_log[OF assms a]
  show "\<exists>t. error_log_of (snd (revise env (PStr tid) name s)) =
                   error_log_of s @ [error_entry name (error out) t]" by (rule r(1))
  show "mstat (snd (revise env (PStr tid) name s)) name = Some (PStr ''failed'')" by (rule r(2))
  show "map_of (cur_context (snd (revise env (PStr tid) name s))) ''task_status'' =
              Some (PStr ''failed'')" by (rule r(3))
qed

theorem failed_attempt_log_entries_witness:
  "task_ok ''a1b2c3d4'' story_ready_state \<and>
   map_of module_registry ''story_builder'' = Some StoryBuilderModule \<and>
   fst (dispatch_module raising_env ''story_builder'' story_ready_state) =
     Inr \<lparr>status = ''failed'', result = PDict [],
          error = PStr (run_error_msg ''story_builder'' (PyException ''service unavailable''))\<rparr> \<and>
   validate_input (heap story_ready_state) StoryBuilderModule (cur_context story_ready_state) = Inr True \<and>
   fst (input_feedback raising_env (world story_ready_state)) = Inr [] \<and>
   fst (dispatch_module raising_env ''story_builder'' (revision_state raising_env [] story_ready_state)) =
     Inr \<lparr>status = ''failed'', result = PDict [],
          error = PStr (run_error_msg ''story_builder'' (PyException ''service unavailable''))\<rparr> \<and>
   length (error_log_of (snd (dispatch_module raising_env ''story_builder'' story_ready_state))) = 1 \<and>
   mstat (busy_state raising_env StoryBuilderModule story_ready_state) ''story_builder'' = Some (PStr ''busy'') \<and>
   mstat (snd (dispatch_module raising_env ''story_builder'' story_ready_state)) ''story_builder'' =
     Some (PStr ''failed'') \<and>
   length (error_log_of (snd (run_step raising_env (PStr ''a1b2c3d4'') ''story_builder'' story_ready_state))) = 2 \<and>
   mstat (snd (run_step raising_env (PStr ''a1b2c3d4'') ''story_builder'' story_ready_state)) ''story_builder'' =
     Some (PStr ''failed'') \<and>
   length (error_log_of (snd (revise raising_env (PStr ''a1b2c3d4'') ''story_builder'' story_ready_state))) = 1 \<and>
   mstat (snd (revise raising_env (PStr ''a1b2c3d4'') ''story_builder'' story_ready_state)) ''story_builder'' =
     Some (PStr ''failed'')"
proof -
  let ?out = "\<lparr>status = ''failed'', result = PDict [],
          error = PStr (run_error_msg ''story_builder'' (PyException ''service unavailable''))\<rparr>"
  have st: "status ?out = ''failed''" by simp
  have fb: "fst (input_feedback raising_env (world story_ready_state)) = Inr []"
    by (simp add: story_ready_facts(8))
  have rd: "fst (dispatch_module raising_env ''story_builder'' (revision_state raising_env [] story_ready_state)) =
     Inr ?out" by (simp add: story_ready_facts(9) story_ready_dispatch(1))
  note th = failed_attempt_log_entries[OF story_ready_facts(1,2), of raising_env]
  from th story_ready_dispatch(1) st
  obtain t where 1: "error_log_of (snd (dispatch_module raising_env ''story_builder'' story_ready_state)) =
      error_log_of story_ready_state @ [error_entry ''story_builder'' (error ?out) t]" by blast
  from th story_ready_dispatch(1) st obtain t1 t2 where 2:
    "error_log_of (snd (run_step raising_env (PStr ''a1b2c3d4'') ''story_builder'' story_ready_state)) =
      error_log_of story_ready_state @
        [error_entry ''story_builder'' (error ?out) t1, error_entry ''story_builder'' (error ?out) t2]"
    by blast
  from th fb rd st obtain t3 where 3:
    "error_log_of (snd (revise raising_env (PStr ''a1b2c3d4'') ''story_builder'' story_ready_state)) =
      error_log_of story_ready_state @ [error_entry ''story_builder'' (error ?out) t3]"
    by blast
  from th story_ready_dispatch(1) st story_ready_facts(3)
  have 4: "mstat (busy_state raising_env StoryBuilderModule story_ready_state) ''story_builder'' = Some (PStr ''busy'')"
    "mstat (snd (dispatch_module raising_env ''story_builder'' story_ready_state)) ''story_builder'' =
     Some (PStr ''failed'')"
    "mstat (snd (run_step raising_env (PStr ''a1b2c3d4'') ''story_builder'' story_ready_state)) =
     mstat (snd (dispatch_module raising_env ''story_builder'' story_ready_state))"
    by blast+
  from th fb rd st
  have 5: "mstat (snd (revise raising_env (PStr ''a1b2c3d4'') ''story_builder'' story_ready_state)) ''story_builder'' =
     Some (PStr ''failed'')" by blast
  show ?thesis
    using story_ready_facts(1,2,3) story_ready_dispatch(1) fb rd 4 5
    unfolding 1 2 3 by (simp add: story_ready_facts(5))
qed

text \<open>
  Claim C5 as it is worded does not hold: the story builder is attempted once, its \<^verbatim>\<open>run\<close>
  raises, and the round of the main loop leaves two entries in an error log that was empty.
\<close>

theorem failed_step_logs_twice:
  "error_log_of story_ready_state = [] \<and>
   trace (snd (run_step raising_env (PStr ''a1b2c3d4'') ''story_builder'' story_ready_state)) =
     [CallValidate ''story_builder'' (cur_context story_ready_state),
      CallRun ''story_builder'' (PStr ''a1b2c3d4'')
        (cur_context (busy_state raising_env StoryBuilderModule story_ready_state))
        (Raises (PyException ''service unavailable''))] \<and>
   length (error_log_of (snd (run_step raising_env (PStr ''a1b2c3d4'') ''story_builder'' story_ready_state))) = 2"
proof -
  let ?out = "\<lparr>status = ''failed'', result = PDict [],
          error = PStr (run_error_msg ''story_builder'' (PyException ''service unavailable''))\<rparr>"
  have st: "status ?out = ''failed''" by simp
  note l = run_step_failed_log[OF story_ready_facts(1,2) story_ready_dispatch(1) st]
  from l(1) obtain t1 t2 where 2:
    "error_log_of (snd (run_step raising_env (PStr ''a1b2c3d4'') ''story_builder'' story_ready_state)) =
      error_log_of story_ready_state @
        [error_entry ''story_builder'' (error ?out) t1, error_entry ''story_builder'' (error ?out) t2]"
    by blast
  show ?thesis unfolding 2 l(2) story_ready_dispatch(2) by (simp add: story_ready_facts(5))
qed

subsection \<open>The context in memory and in the file\<close>

lemma dict_update_keeps:
  "k \<notin> fst ` set upd \<Longrightarrow> map_of (dict_update c upd) k = map_of c k"
  by (induction upd arbitrary: c) (auto simp: update_conv')

lemma update_context_in_sync:
  assumes "map_of (cur_context s) ''task_id'' = Some (PStr tid)" "''task_id'' \<notin> fst ` set upd"
  shows "fst (update_context env upd s) = Inr () \<and> in_sync tid (snd (update_context env upd s))"
  using assms dict_update_keeps[OF assms(2), of "cur_context s"]
  by (simp add: update_context_def prog_defs case_prod_beta getitem_def update_conv' in_sync_def)

lemma feedback_disk:
  "disk (snd (inject_feedback fb s)) = disk s" "disk (snd (clear_feedback s)) = disk s"
  "heap (snd (inject_feedback fb s)) = heap s" "heap (snd (clear_feedback s)) = heap s"
  by (simp_all add: inject_feedback_def clear_feedback_def modify_context_def ret_def)

lemma map_of_snapshot: "map_of (snapshot h c) k = map_option (resolve h) (map_of c k)"
  by (induction c) (auto simp: snapshot_def)

lemma inject_breaks_sync:
  assumes "in_sync tid s" "map_of (cur_context s) ''user_feedback'' = None" "fb \<noteq> []"
  shows "\<not> in_sync tid (snd (inject_feedback fb s))"
proof
  assume a: "in_sync tid (snd (inject_feedback fb s))"
  have "snapshot (heap s) (cur_context (snd (inject_feedback fb s))) = snapshot (heap s) (cur_context s)"
    using a assms(1) by (simp add: in_sync_def feedback_disk)
  then have "map_of (snapshot (heap s) (cur_context (snd (inject_feedback fb s)))) ''user_feedback'' =
     map_of (snapshot (heap s) (cur_context s)) ''user_feedback''" by simp
  then show False using assms(2,3) by (simp add: map_of_snapshot inject_feedback_facts)
qed

lemma clear_breaks_sync:
  assumes "in_sync tid s" "map_of (cur_context s) ''user_feedback'' = Some v"
  shows "\<not> in_sync tid (snd (clear_feedback s))"
proof
  assume a: "in_sync tid (snd (clear_feedback s))"
  have "snapshot (heap s) (cur_context (snd (clear_feedback s))) = snapshot (heap s) (cur_context s)"
    using a assms(1) by (simp add: in_sync_def feedback_disk)
  then have "map_of (snapshot (heap s) (cur_context (snd (clear_feedback s)))) ''user_feedback'' =
     map_of (snapshot (heap s) (cur_context s)) ''user_feedback''" by simp
  then show False using assms(2) by (simp add: map_of_snapshot clear_feedback_facts)
qed

lemma synced_state_facts:
  "task_ok ''a1b2c3d4'' synced_state"
  "in_sync ''a1b2c3d4'' synced_state"
  "map_of (cur_context synced_state) ''user_feedback'' = None"
proof -
  have n: "''demand_interact'' @ ''_info'' \<noteq> ''task_id''"
    "''demand_interact'' @ ''_info'' \<noteq> ''module_status''"
    "''demand_interact'' @ ''_info'' \<noteq> ''error_log''" by simp_all
  note u = update_plain_ok[OF sample_state_ok n, of raising_env "PDict []"]
  show "task_ok ''a1b2c3d4'' synced_state" "in_sync ''a1b2c3d4'' synced_state"
    using u by (simp_all add: synced_state_def store_result_def)
  from u have "kept {''demand_interact'' @ ''_info'', ''update_time''} sample_state synced_state"
    by (simp add: synced_state_def store_result_def)
  then have "map_of (cur_context synced_state) ''user_feedback'' =
     map_of (cur_context sample_state) ''user_feedback''" by (simp add: kept_def)
  then show "map_of (cur_context synced_state) ''user_feedback'' = None"
    by (simp add: sample_state_def sample_context_def initial_template_def update_conv')
qed

text \<open>
  Claim C9, as the code has it. Every \<^verbatim>\<open>_update_context\<close>, every dispatch that returns and
  every round of the loop of \<^verbatim>\<open>run_ad_task\<close> that returns leaves in the file of the task the
  context as it is in memory. Putting \<^verbatim>\<open>user_feedback\<close> into the context and deleting it
  are changes of the object in memory only: the file stays as it was, and so differs from
  the context until the next \<^verbatim>\<open>_update_context\<close>.
\<close>

theorem context_saved_by_updates_only:
  assumes "task_ok tid s" "map_of module_registry name = Some m"
  shows "(\<forall>update_data. ''task_id'' \<notin> fst ` set update_data \<longrightarrow>
            in_sync tid (snd (update_context env update_data s))) \<and>
         (\<forall>out. fst (dispatch_module env name s) = Inr out \<longrightarrow>
            in_sync tid (snd (dispatch_module env name s))) \<and>
         (\<forall>x. fst (run_step env (PStr tid) name s) = Inr x \<longrightarrow>
            in_sync tid (snd (run_step env (PStr tid) name s))) \<and>
         disk (snd (inject_feedback fb s)) = disk s \<and>
         disk (snd (clear_feedback s)) = disk s \<and>
         (in_sync tid s \<longrightarrow> map_of (cur_context s) ''user_feedback'' = None \<longrightarrow> fb \<noteq> [] \<longrightarrow>
            \<not> in_sync tid (snd (inject_feedback fb s))) \<and>
         (in_sync tid s \<longrightarrow> map_of (cur_context s) ''user_feedback'' \<noteq> None \<longrightarrow>
            \<not> in_sync tid (snd (clear_feedback s)))"
proof -
  from assms(1) have id: "map_of (cur_context s) ''task_id'' = Some (PStr tid)"
    by (simp add: task_ok_def)
  have 1: "\<forall>update_data. ''task_id'' \<notin> fst ` set update_data \<longrightarrow>
            in_sync tid (snd (update_context env update_data s))"
    using update_context_in_sync[OF id] by blast
  have 2: "\<forall>out. fst (dispatch_module env name s) = Inr out \<longrightarrow>
            in_sync tid (snd (dispatch_module env name s))"
    using dispatch_spec[OF assms, of env] by (simp add: dispatch_post_def)
  have 3: "\<forall>x. fst (run_step env (PStr tid) name s) = Inr x \<longrightarrow>
            in_sync tid (snd (run_step env (PStr tid) name s))"
    using run_step_spec[OF assms, of env] by (simp add: step_post_def)
  have 4: "in_sync tid s \<longrightarrow> map_of (cur_context s) ''user_feedback'' = None \<longrightarrow> fb \<noteq> [] \<longrightarrow>
            \<not> in_sync tid (snd (inject_feedback fb s))"
    using inject_breaks_sync by blast
  have 5: "in_sync tid s \<longrightarrow> map_of (cur_context s) ''user_feedback'' \<noteq> None \<longrightarrow>
            \<not> in_sync tid (snd (clear_feedback s))"
    using clear_breaks_sync by blast
  show ?thesis using 1 2 3 4 5 feedback_disk(1,2) by blast
qed

theorem context_saved_by_updates_only_witness:
  "task_ok ''a1b2c3d4'' synced_state \<and>
   map_of module_registry ''story_builder'' = Some StoryBuilderModule \<and>
   ''task_id'' \<notin> fst ` set [(''task_status'', PStr ''failed'')] \<and>
   in_sync ''a1b2c3d4'' (snd (update_context raising_env [(''task_status'', PStr ''failed'')] synced_state)) \<and>
   in_sync ''a1b2c3d4'' synced_state \<and>
   map_of (cur_context synced_state) ''user_feedback'' = None \<and>
   ''make it funnier'' \<noteq> [] \<and>
   disk (snd (inject_feedback ''make it funnier'' synced_state)) = disk synced_state \<and>
   \<not> in_sync ''a1b2c3d4'' (snd (inject_feedback ''make it funnier'' synced_state))"
  using context_saved_by_updates_only[OF synced_state_facts(1) story_ready_facts(2),
      where env = raising_env and fb = "''make it funnier''"]
    synced_state_facts story_ready_facts(2)
  by simp

text \<open>
  Claim C9 as it is worded does not hold: the file holds the context; the operator's text
  \<^verbatim>\<open>make it funnier\<close> is put into the context; the file no longer holds the context.
\<close>

theorem feedback_is_not_saved:
  "in_sync ''a1b2c3d4'' synced_state \<and>
   \<not> in_sync ''a1b2c3d4'' (snd (inject_feedback ''make it funnier'' synced_state))"
  using inject_breaks_sync[OF synced_state_facts(2,3), of "''make it funnier''"] synced_state_facts(2)
  by simp

subsection \<open>The loop over the steps\<close>

lemma step_frame_events:
  assumes "step_frame K name s s'" "n \<noteq> name"
  shows "events_of n s' = events_of n s" "mstat s' n = mstat s n"
proof -
  from assms(1) obtain evs where e: "trace s' = trace s @ evs" "\<forall>e\<in>set evs. event_module e = name"
    by (auto simp: step_frame_def)
  from e(2) assms(2) have "filter (\<lambda>e. event_module e = n) evs = []" by (auto simp: filter_empty_conv)
  then show "events_of n s' = events_of n s" by (simp add: events_of_def e(1))
  show "mstat s' n = mstat s n" using assms by (simp add: step_frame_def)
qed

lemma flow_keys_sub:
  "step_keys name \<subseteq> flow_keys (name # names)" "flow_keys names \<subseteq> flow_keys (name # names)"
  by (auto simp: step_keys_def flow_keys_def)

lemma flow_post_Nil: "task_ok tid s \<Longrightarrow> flow_post tid [] s (Inr None) s"
  by (simp add: flow_post_def kept_slots_refl)

lemma flow_post_stop:
  assumes sp: "step_post tid name s r s1" and r: "r \<noteq> Inr None" and d: "name \<notin> set names"
  shows "flow_post tid (name # names) s r s1"
proof -
  from sp have fr: "step_frame (step_keys name) name s s1" by (simp add: step_post_def)
  then have "kept_slots (step_keys name) s s1" by (simp add: step_frame_def)
  then have k: "kept_slots (flow_keys (name # names)) s s1"
    by (rule kept_slots_mono) (rule flow_keys_sub(1))
  have o: "\<forall>n. n \<noteq> name \<longrightarrow> mstat s1 n = mstat s n \<and> events_of n s1 = events_of n s"
    using step_frame_events[OF fr] by blast
  have f: "\<forall>res. r = Inr (Some res) \<longrightarrow>
        in_sync tid s1 \<and>
        (\<exists>pre m post. name # names = pre @ m # post \<and>
           res = failure_result (PStr tid) m (error (outcome_for m (last (trace s1)))) (cur_context s1) \<and>
           status (outcome_for m (last (trace s1))) = ''failed'' \<and>
           map_of (cur_context s1) ''task_status'' = Some (PStr ''failed'') \<and>
           mstat s1 m = Some (PStr ''failed'') \<and>
           (\<forall>n\<in>set post. mstat s1 n = mstat s n \<and> events_of n s1 = events_of n s))"
  proof (intro allI impI)
    fix res assume a: "r = Inr (Some res)"
    from sp a have 1: "in_sync tid s1"
      "res = failure_result (PStr tid) name (error (outcome_for name (last (trace s1)))) (cur_context s1)"
      "status (outcome_for name (last (trace s1))) = ''failed''"
      "map_of (cur_context s1) ''task_status'' = Some (PStr ''failed'')"
      "mstat s1 name = Some (PStr ''failed'')"
      by (simp_all add: step_post_def)
    have 2: "\<forall>n\<in>set names. mstat s1 n = mstat s n \<and> events_of n s1 = events_of n s"
    proof
      fix n assume "n \<in> set names"
      with d have "n \<noteq> name" by auto
      then show "mstat s1 n = mstat s n \<and> events_of n s1 = events_of n s" using o by simp
    qed
    have ex: "\<exists>pre m post. name # names = pre @ m # post \<and>
           res = failure_result (PStr tid) m (error (outcome_for m (last (trace s1)))) (cur_context s1) \<and>
           status (outcome_for m (last (trace s1))) = ''failed'' \<and>
           map_of (cur_context s1) ''task_status'' = Some (PStr ''failed'') \<and>
           mstat s1 m = Some (PStr ''failed'') \<and>
           (\<forall>n\<in>set post. mstat s1 n = mstat s n \<and> events_of n s1 = events_of n s)"
      apply (rule exI[of _ "[]"])
      apply (rule exI[of _ name])
      apply (rule exI[of _ names])
      using 1(2-5) 2 apply simp
      done
    with 1(1) show "in_sync tid s1 \<and>
        (\<exists>pre m post. name # names = pre @ m # post \<and>
           res = failure_result (PStr tid) m (error (outcome_for m (last (trace s1)))) (cur_context s1) \<and>
           status (outcome_for m (last (trace s1))) = ''failed'' \<and>
           map_of (cur_context s1) ''task_status'' = Some (PStr ''failed'') \<and>
           mstat s1 m = Some (PStr ''failed'') \<and>
           (\<forall>n\<in>set post. mstat s1 n = mstat s n \<and> events_of n s1 = events_of n s))"
      by (rule conjI)
  qed
  show ?thesis unfolding flow_post_def using k o f r by simp
qed

lemma flow_post_go:
  assumes sp: "step_post tid name s (Inr None) s1" and fp: "flow_post tid names s1 r s'"
    and d: "name \<notin> set names"
  shows "flow_post tid (name # names) s r s'"
proof -
  from sp have fr: "step_frame (step_keys name) name s s1" by (simp add: step_post_def)
  then have "kept_slots (step_keys name) s s1" by (simp add: step_frame_def)
  then have k1: "kept_slots (flow_keys (name # names)) s s1"
    by (rule kept_slots_mono) (rule flow_keys_sub(1))
  from fp have "kept_slots (flow_keys names) s1 s'" by (simp add: flow_post_def)
  then have k2: "kept_slots (flow_keys (name # names)) s1 s'"
    by (rule kept_slots_mono) (rule flow_keys_sub(2))
  have k: "kept_slots (flow_keys (name # names)) s s'" by (rule kept_slots_trans[OF k1 k2])
  have o1: "\<And>n. n \<noteq> name \<Longrightarrow> mstat s1 n = mstat s n \<and> events_of n s1 = events_of n s"
    using step_frame_events[OF fr] by blast
  from fp have o2: "\<And>n. n \<notin> set names \<Longrightarrow> mstat s' n = mstat s1 n \<and> events_of n s' = events_of n s1"
    by (simp add: flow_post_def)
  have o: "\<forall>n. n \<notin> set (name # names) \<longrightarrow> mstat s' n = mstat s n \<and> events_of n s' = events_of n s"
    using o1 o2 by simp
  from fp have ok: "r = Inr None \<longrightarrow> task_ok tid s'" by (simp add: flow_post_def)
  have f: "\<forall>res. r = Inr (Some res) \<longrightarrow>
        in_sync tid s' \<and>
        (\<exists>pre m post. name # names = pre @ m # post \<and>
           res = failure_result (PStr tid) m (error (outcome_for m (last (trace s')))) (cur_context s') \<and>
           status (outcome_for m (last (trace s'))) = ''failed'' \<and>
           map_of (cur_context s') ''task_status'' = Some (PStr ''failed'') \<and>
           mstat s' m = Some (PStr ''failed'') \<and>
           (\<forall>n\<in>set post. mstat s' n = mstat s n \<and> events_of n s' = events_of n s))"
  proof (intro allI impI)
    fix res assume a: "r = Inr (Some res)"
    from fp a have sy: "in_sync tid s'" by (simp add: flow_post_def)
    from fp a obtain pre m post where p: "names = pre @ m # post"
      "res = failure_result (PStr tid) m (error (outcome_for m (last (trace s')))) (cur_context s')"
      "status (outcome_for m (last (trace s'))) = ''failed''"
      "map_of (cur_context s') ''task_status'' = Some (PStr ''failed'')"
      "mstat s' m = Some (PStr ''failed'')"
      "\<forall>n\<in>set post. mstat s' n = mstat s1 n \<and> events_of n s' = events_of n s1"
      unfolding flow_post_def by blast
    have q: "\<forall>n\<in>set post. mstat s' n = mstat s n \<and> events_of n s' = events_of n s"
    proof
      fix n assume "n \<in> set post"
      then have "n \<in> set names" by (simp add: p(1))
      with d have "n \<noteq> name" by auto
      with o1[of n] p(6) \<open>n \<in> set post\<close> show "mstat s' n = mstat s n \<and> events_of n s' = events_of n s"
        by simp
    qed
    have ex: "\<exists>pre m post. name # names = pre @ m # post \<and>
           res = failure_result (PStr tid) m (error (outcome_for m (last (trace s')))) (cur_context s') \<and>
           status (outcome_for m (last (trace s'))) = ''failed'' \<and>
           map_of (cur_context s') ''task_status'' = Some (PStr ''failed'') \<and>
           mstat s' m = Some (PStr ''failed'') \<and>
           (\<forall>n\<in>set post. mstat s' n = mstat s n \<and> events_of n s' = events_of n s)"
      apply (rule exI[of _ "name # pre"])
      apply (rule exI[of _ m])
      apply (rule exI[of _ post])
      using p(1-5) q apply simp
      done
    with sy show "in_sync tid s' \<and>
        (\<exists>pre m post. name # names = pre @ m # post \<and>
           res = failure_result (PStr tid) m (error (outcome_for m (last (trace s')))) (cur_context s') \<and>
           status (outcome_for m (last (trace s'))) = ''failed'' \<and>
           map_of (cur_context s') ''task_status'' = Some (PStr ''failed'') \<and>
           mstat s' m = Some (PStr ''failed'') \<and>
           (\<forall>n\<in>set post. mstat s' n = mstat s n \<and> events_of n s' = events_of n s))"
      by (rule conjI)
  qed
  show ?thesis unfolding flow_post_def using k o ok f by simp
qed

lemma run_flow_Cons:
  "run_flow env t (name # names) s =
     (case fst (run_step env t name s) of
        Inl e \<Rightarrow> (Inl e, snd (run_step env t name s))
      | Inr (Some res) \<Rightarrow> (Inr (Some res), snd (run_step env t name s))
      | Inr None \<Rightarrow> run_flow env t names (snd (run_step env t name s)))"
  by (simp add: pbind_def ret_def case_prod_beta split: sum.split option.split)

lemma run_flow_spec:
  assumes "distinct names" "\<forall>n\<in>set names. map_of module_registry n \<noteq> None" "task_ok tid s"
  shows "flow_post tid names s (fst (run_flow env (PStr tid) names s)) (snd (run_flow env (PStr tid) names s))"
  using assms
proof (induction names arbitrary: s)
  case Nil
  then show ?case by (simp add: ret_def flow_post_Nil)
next
  case (Cons name names)
  from Cons.prems(2) obtain m where reg: "map_of module_registry name = Some m" by auto
  note sp = run_step_spec[OF Cons.prems(3) reg, of env]
  from Cons.prems(1) have d: "name \<notin> set names" "distinct names" by simp_all
  show ?case
  proof (cases "fst (run_step env (PStr tid) name s) = Inr None")
    case True
    with sp have ok1: "task_ok tid (snd (run_step env (PStr tid) name s))" by (simp add: step_post_def)
    from Cons.prems(2) have r2: "\<forall>n\<in>set names. map_of module_registry n \<noteq> None" by simp
    note ih = Cons.IH[OF d(2) r2 ok1]
    have eq: "run_flow env (PStr tid) (name # names) s =
       run_flow env (PStr tid) names (snd (run_step env (PStr tid) name s))"
      unfolding run_flow_Cons using True by simp
    show ?thesis unfolding eq by (rule flow_post_go[OF sp[unfolded True] ih d(1)])
  next
    case False
    have eq: "run_flow env (PStr tid) (name # names) s =
       (fst (run_step env (PStr tid) name s), snd (run_step env (PStr tid) name s))"
      unfolding run_flow_Cons using False
      by (cases "run_step env (PStr tid) name s") (simp split: sum.split option.split)
    show ?thesis unfolding eq fst_conv snd_conv by (rule flow_post_stop[OF sp False d(1)])
  qed
qed

subsection \<open>A whole task\<close>

lemma init_facts:
  assumes "context_template s = initial_template a"
  shows "fst (init_ad_task env input s) = Inr (cur_context (started env input s))"
    and "task_ok (new_id env s) (started env input s)"
    and "in_sync (new_id env s) (started env input s)"
    and "mstat (started env input s) n = (if n \<in> set schedule_flow then Some (PStr ''idle'') else None)"
    and "map_of (cur_context (started env input s)) ''video_info'' = Some (PDict [])"
    and "map_of (cur_context (started env input s)) ''user_feedback'' = None"
    and "map_of (cur_context (started env input s)) ''task_status'' = Some (PStr ''processing'')"
    and "map_of (cur_context (started env input s)) ''initial_input'' = Some input"
    and "trace (started env input s) = trace s"
    and "context_template (started env input s) = context_template s"
    and "heap (started env input s) = heap s"
    and "next_ref (started env input s) = next_ref s"
    and "error_log_of (started env input s) = heap s a"
  using assms
  by (simp_all add: init_ad_task_def new_task_id_def started_def new_id_def prog_defs case_prod_beta
      initial_template_def update_conv' task_ok_def in_sync_def mstat_def error_log_of_def
      schedule_flow_def)

lemma update_context_eq:
  assumes "map_of (cur_context s) ''task_id'' = Some (PStr tid)" "''task_id'' \<notin> fst ` set upd"
  shows "update_context env upd s =
     (Inr (), s\<lparr>cur_context := AList.update ''update_time'' (PStr (fst (strftime env (world s))))
                                 (dict_update (cur_context s) upd),
                world := snd (strftime env (world s)),
                disk := (disk s)(context_file tid \<mapsto>
                   snapshot (heap s) (AList.update ''update_time'' (PStr (fst (strftime env (world s))))
                                 (dict_update (cur_context s) upd)))\<rparr>)"
  using assms dict_update_keeps[OF assms(2), of "cur_context s"]
  by (simp add: update_context_def prog_defs case_prod_beta getitem_def update_conv')

lemma finish_task_eq:
  assumes "task_ok tid s" "map_of (cur_context s) ''video_info'' = Some (PDict [])"
  shows "fst (finish_task env (PStr tid) s) = Inl (KeyError ''final_video_path'')"
    and "map_of (cur_context (snd (finish_task env (PStr tid) s))) ''task_status'' = Some (PStr ''finished'')"
    and "map_of (cur_context (snd (finish_task env (PStr tid) s))) ''progress'' = Some (PFloat 100)"
    and "in_sync tid (snd (finish_task env (PStr tid) s))"
    and "trace (snd (finish_task env (PStr tid) s)) = trace s"
    and "mstat (snd (finish_task env (PStr tid) s)) = mstat s"
proof -
  from assms(1) have id: "map_of (cur_context s) ''task_id'' = Some (PStr tid)" by (simp add: task_ok_def)
  have k: "''task_id'' \<notin> fst ` set [(''task_status'', PStr ''finished''), (''progress'', PFloat 100)]"
    by simp
  note u = update_context_eq[OF id k, of env]
  have f: "finish_task env (PStr tid) s =
     (Inl (KeyError ''final_video_path''),
      snd (update_context env [(''task_status'', PStr ''finished''), (''progress'', PFloat 100)] s))"
    using assms(2) unfolding finish_task_def
    by (simp add: pbind_def u get_context_def lift_def ret_def getitem_def py_subscript_def update_conv')
  show "fst (finish_task env (PStr tid) s) = Inl (KeyError ''final_video_path'')" by (simp add: f)
  show "map_of (cur_context (snd (finish_task env (PStr tid) s))) ''task_status'' = Some (PStr ''finished'')"
    "map_of (cur_context (snd (finish_task env (PStr tid) s))) ''progress'' = Some (PFloat 100)"
    "trace (snd (finish_task env (PStr tid) s)) = trace s"
    unfolding f snd_conv u by (simp_all add: update_conv')
  show "in_sync tid (snd (finish_task env (PStr tid) s))"
    unfolding f snd_conv u by (simp add: in_sync_def)
  show "mstat (snd (finish_task env (PStr tid) s)) = mstat s"
    unfolding f snd_conv u by (rule ext) (simp add: mstat_def update_conv')
qed

lemma run_ad_task_eq:
  assumes "context_template s = initial_template a"
  shows "run_ad_task env input s =
     (case fst (looped env input s) of
        Inl e \<Rightarrow> (Inr (exception_result e (cur_context (snd (looped env input s)))), snd (looped env input s))
      | Inr (Some res) \<Rightarrow> (Inr res, snd (looped env input s))
      | Inr None \<Rightarrow>
          (case fst (finish_task env (PStr (new_id env s)) (snd (looped env input s))) of
             Inl e \<Rightarrow>
               (Inr (exception_result e
                  (cur_context (snd (finish_task env (PStr (new_id env s)) (snd (looped env input s)))))),
                snd (finish_task env (PStr (new_id env s)) (snd (looped env input s))))
           | Inr res \<Rightarrow> (Inr res, snd (finish_task env (PStr (new_id env s)) (snd (looped env input s))))))"
proof -
  note i = init_facts[OF assms, of env input]
  from i(2) have id: "getitem (cur_context (started env input s)) ''task_id'' = Inr (PStr (new_id env s))"
    by (simp add: task_ok_def getitem_def)
  have i1: "init_ad_task env input s = (Inr (cur_context (started env input s)), started env input s)"
    using i(1) by (simp add: started_def prod_eq_iff)
  show ?thesis
    unfolding run_ad_task_def catch_def pbind_def i1 context_getitem_def
    by (simp add: id looped_def exception_result_def get_context_def ret_def case_prod_beta
        split: sum.split option.split)
qed

subsection \<open>Steps that succeed\<close>

lemma success_step:
  assumes ok: "task_ok tid s" and reg: "map_of module_registry name = Some m"
    and v: "validate_input (heap s) m (cur_context s) = Inr True"
    and o: "run_outcome_at env m (PStr tid) s = Returns r" and st: "status r \<noteq> ''failed''"
    and cf: "\<forall>p w. fst (user_confirm env p w) = Inr True"
  shows "fst (run_step env (PStr tid) name s) = Inr None"
    and "task_ok tid (snd (run_step env (PStr tid) name s))"
    and "map_of (cur_context (snd (run_step env (PStr tid) name s))) (name @ ''_info'') = Some (result r)"
    and "\<And>k. k \<notin> step_keys name \<Longrightarrow>
           map_of (cur_context (snd (run_step env (PStr tid) name s))) k = map_of (cur_context s) k"
proof -
  define s4 where "s4 = snd (dispatch_module env name s)"
  have d: "dispatch_module env name s = (Inr r, s4)"
    unfolding s4_def dispatch_validate_true[OF ok reg v] o using st by simp
  from dispatch_spec[OF ok reg, of env] d have okd: "task_ok tid s4"
    by (simp add: dispatch_post_def)
  note sr = store_result_ok[OF okd, where env = env and name = name and v = "result r"]
  define s5 where "s5 = snd (store_result env name (result r) s4)"
  have sr1: "store_result env name (result r) s4 = (Inr (), s5)"
    using sr(1) by (simp add: prod_eq_iff s5_def)
  have rs: "run_step env (PStr tid) name s =
     (Inr None,
      if check_pause_node name
      then s5\<lparr>world := snd (user_confirm env
                 (if name = ''story_builder'' then prompt_story else prompt_storyboard) (world s5))\<rparr>
      else s5)"
    unfolding run_step_def pbind_def d using st cf
    by (simp add: sr1 call_user_confirm_def ret_def case_prod_beta Let_def)
  show 1: "fst (run_step env (PStr tid) name s) = Inr None" by (simp add: rs)
  from run_step_spec[OF ok reg, of env] 1
  show "task_ok tid (snd (run_step env (PStr tid) name s))" by (simp add: step_post_def)
  show "map_of (cur_context (snd (run_step env (PStr tid) name s))) (name @ ''_info'') = Some (result r)"
    using sr(7) by (simp add: rs s5_def)
  fix k assume "k \<notin> step_keys name"
  with run_step_spec[OF ok reg, of env]
  show "map_of (cur_context (snd (run_step env (PStr tid) name s))) k = map_of (cur_context s) k"
    by (simp add: step_post_def step_frame_def kept_slots_def)
qed

lemma success_step_env:
  assumes ok: "task_ok tid s" and reg: "map_of module_registry name = Some m"
    and v: "validate_input (heap s) m (cur_context s) = Inr True"
    and rs: "\<forall>m t c w. run_succeeds (fst (run_module env m t c w))"
    and cf: "\<forall>p w. fst (user_confirm env p w) = Inr True"
    and pr: "\<forall>k\<in>K. map_of (cur_context s) k \<noteq> None" and dj: "K \<inter> step_keys name = {}"
  shows "fst (run_step env (PStr tid) name s) = Inr None"
    and "task_ok tid (snd (run_step env (PStr tid) name s))"
    and "\<forall>k\<in>insert (name @ ''_info'') K. map_of (cur_context (snd (run_step env (PStr tid) name s))) k \<noteq> None"
proof -
  from rs have "run_succeeds (run_outcome_at env m (PStr tid) s)" by (simp add: run_outcome_at_def)
  then obtain r where o: "run_outcome_at env m (PStr tid) s = Returns r" and s: "status r = ''success''"
    by (cases "run_outcome_at env m (PStr tid) s") simp_all
  from s have st: "status r \<noteq> ''failed''" by simp
  note a = success_step[OF ok reg v o st cf]
  show "fst (run_step env (PStr tid) name s) = Inr None" by (rule a(1))
  show "task_ok tid (snd (run_step env (PStr tid) name s))" by (rule a(2))
  show "\<forall>k\<in>insert (name @ ''_info'') K. map_of (cur_context (snd (run_step env (PStr tid) name s))) k \<noteq> None"
  proof
    fix k assume "k \<in> insert (name @ ''_info'') K"
    then consider "k = name @ ''_info''" | "k \<in> K" by auto
    then show "map_of (cur_context (snd (run_step env (PStr tid) name s))) k \<noteq> None"
    proof cases
      case 1
      then show ?thesis using a(3) by simp
    next
      case 2
      with dj have "k \<notin> step_keys name" by auto
      from a(4)[OF this] pr 2 show ?thesis by simp
    qed
  qed
qed

lemma registry_facts:
  "map_of module_registry ''demand_interact'' = Some DemandInteractModule"
  "map_of module_registry ''story_builder'' = Some StoryBuilderModule"
  "map_of module_registry ''scene_designer'' = Some SceneDesignModule"
  "map_of module_registry ''storyboard_designer'' = Some StoryboardDesignModule"
  "map_of module_registry ''grid_image_generator'' = Some GridImageGenerateModule"
  "map_of module_registry ''image_optimizer'' = Some ImageOptimizeModule"
  "map_of module_registry ''video_generator'' = Some VideoGenerateModule"
  by (simp_all add: module_registry_def)

subsection \<open>A task whose steps all succeed\<close>

lemma run_flow_Cons_None:
  "fst (run_step env t name s) = Inr None \<Longrightarrow>
     run_flow env t (name # names) s = run_flow env t names (snd (run_step env t name s))"
  unfolding run_flow_Cons by simp

lemma all_succeed_loop:
  assumes tpl: "context_template s = initial_template a"
    and rs: "\<forall>m t c w. run_succeeds (fst (run_module env m t c w))"
    and cf: "\<forall>p w. fst (user_confirm env p w) = Inr True"
    and vi: "validate_input (heap s) DemandInteractModule [(''initial_input'', input)] = Inr True"
  shows "fst (looped env input s) = Inr None"
    and "task_ok (new_id env s) (snd (looped env input s))"
proof -
  let ?T = "PStr (new_id env s)"
  let ?s0 = "started env input s"
  let ?s1 = "snd (run_step env ?T ''demand_interact'' ?s0)"
  let ?s2 = "snd (run_step env ?T ''story_builder'' ?s1)"
  let ?s3 = "snd (run_step env ?T ''scene_designer'' ?s2)"
  let ?s4 = "snd (run_step env ?T ''storyboard_designer'' ?s3)"
  let ?s5 = "snd (run_step env ?T ''grid_image_generator'' ?s4)"
  let ?s6 = "snd (run_step env ?T ''image_optimizer'' ?s5)"
  let ?s7 = "snd (run_step env ?T ''video_generator'' ?s6)"
  note i = init_facts[OF tpl, of env input]
  have p0: "\<forall>k\<in>{''task_id''}. map_of (cur_context ?s0) k \<noteq> None"
    using i(2) by (simp add: task_ok_def)
  have v1: "validate_input (heap ?s0) DemandInteractModule (cur_context ?s0) = Inr True"
    using vi by (simp add: getitem_def i(8) i(11))
  have d1: "{''task_id''} \<inter> step_keys ''demand_interact'' = {}"
    by (simp add: step_keys_def dispatch_keys_def)
  note a1 = success_step_env[OF i(2) registry_facts(1) v1 rs cf p0 d1]
  have v2: "validate_input (heap ?s1) StoryBuilderModule (cur_context ?s1) = Inr True"
    using a1(3) by (simp add: has_key_map_of)
  have d2: "insert (''demand_interact'' @ ''_info'') {''task_id''} \<inter> step_keys ''story_builder'' = {}"
    by (simp add: step_keys_def dispatch_keys_def)
  note a2 = success_step_env[OF a1(2) registry_facts(2) v2 rs cf a1(3) d2]
  have v3: "validate_input (heap ?s2) SceneDesignModule (cur_context ?s2) = Inr True"
    using a2(3) by (simp add: has_key_map_of)
  have d3: "insert (''story_builder'' @ ''_info'') (insert (''demand_interact'' @ ''_info'') {''task_id''}) \<inter> step_keys ''scene_designer'' = {}"
    by (simp add: step_keys_def dispatch_keys_def)
  note a3 = success_step_env[OF a2(2) registry_facts(3) v3 rs cf a2(3) d3]
  have v4: "validate_input (heap ?s3) StoryboardDesignModule (cur_context ?s3) = Inr True"
    using a3(3) by (simp add: has_key_map_of)
  have d4: "insert (''scene_designer'' @ ''_info'') (insert (''story_builder'' @ ''_info'') (insert (''demand_interact'' @ ''_info'') {''task_id''})) \<inter> step_keys ''storyboard_designer'' = {}"
    by (simp add: step_keys_def dispatch_keys_def)
  note a4 = success_step_env[OF a3(2) registry_facts(4) v4 rs cf a3(3) d4]
  have v5: "validate_input (heap ?s4) GridImageGenerateModule (cur_context ?s4) = Inr True"
    using a4(3) by (simp add: has_key_map_of)
  have d5: "insert (''storyboard_designer'' @ ''_info'') (insert (''scene_designer'' @ ''_info'') (insert (''story_builder'' @ ''_info'') (insert (''demand_interact'' @ ''_info'') {''task_id''}))) \<inter> step_keys ''grid_image_generator'' = {}"
    by (simp add: step_keys_def dispatch_keys_def)
  note a5 = success_step_env[OF a4(2) registry_facts(5) v5 rs cf a4(3) d5]
  have v6: "validate_input (heap ?s5) ImageOptimizeModule (cur_context ?s5) = Inr True"
    using a5(3) by (simp add: has_key_map_of)
  have d6: "insert (''grid_image_generator'' @ ''_info'') (insert (''storyboard_designer'' @ ''_info'') (insert (''scene_designer'' @ ''_info'') (insert (''story_builder'' @ ''_info'') (insert (''demand_interact'' @ ''_info'') {''task_id''})))) \<inter> step_keys ''image_optimizer'' = {}"
    by (simp add: step_keys_def dispatch_keys_def)
  note a6 = success_step_env[OF a5(2) registry_facts(6) v6 rs cf a5(3) d6]
  have v7: "validate_input (heap ?s6) VideoGenerateModule (cur_context ?s6) = Inr True"
    using a6(3) by (simp add: has_key_map_of)
  have d7: "insert (''image_optimizer'' @ ''_info'') (insert (''grid_image_generator'' @ ''_info'') (insert (''storyboard_designer'' @ ''_info'') (insert (''scene_designer'' @ ''_info'') (insert (''story_builder'' @ ''_info'') (insert (''demand_interact'' @ ''_info'') {''task_id''}))))) \<inter> step_keys ''video_generator'' = {}"
    by (simp add: step_keys_def dispatch_keys_def)
  note a7 = success_step_env[OF a6(2) registry_facts(7) v7 rs cf a6(3) d7]
  have e: "looped env input s = (Inr None, ?s7)"
    unfolding looped_def schedule_flow_def
      run_flow_Cons_None[OF a1(1)] run_flow_Cons_None[OF a2(1)] run_flow_Cons_None[OF a3(1)]
      run_flow_Cons_None[OF a4(1)] run_flow_Cons_None[OF a5(1)] run_flow_Cons_None[OF a6(1)]
      run_flow_Cons_None[OF a7(1)]
    by (simp add: ret_def)
  show "fst (looped env input s) = Inr None" by (simp add: e)
  show "task_ok (new_id env s) (snd (looped env input s))" unfolding e snd_conv by (rule a7(2))
qed

subsection \<open>How a task ends\<close>

lemma flow_facts:
  "distinct schedule_flow" "\<forall>n\<in>set schedule_flow. map_of module_registry n \<noteq> None"
  "''video_info'' \<notin> flow_keys schedule_flow"
  by (simp_all add: schedule_flow_def module_registry_def flow_keys_def dispatch_keys_def)

lemma looped_spec:
  assumes "context_template s = initial_template a"
  shows "flow_post (new_id env s) schedule_flow (started env input s)
           (fst (looped env input s)) (snd (looped env input s))"
  unfolding looped_def
  by (rule run_flow_spec[OF flow_facts(1,2) init_facts(2)[OF assms]])



lemma run_ad_task_cases:
  assumes tpl: "context_template s = initial_template a"
  shows "\<And>e. fst (looped env input s) = Inl e \<Longrightarrow>
           run_ad_task env input s =
             (Inr (exception_result e (cur_context (snd (looped env input s)))), snd (looped env input s))"
    and "\<And>res. fst (looped env input s) = Inr (Some res) \<Longrightarrow>
           run_ad_task env input s = (Inr res, snd (looped env input s))"
    and "fst (looped env input s) = Inr None \<Longrightarrow>
           fst (run_ad_task env input s) =
             Inr (exception_result (KeyError ''final_video_path'') (cur_context (snd (run_ad_task env input s)))) \<and>
           snd (run_ad_task env input s) =
             snd (finish_task env (PStr (new_id env s)) (snd (looped env input s))) \<and>
           map_of (cur_context (snd (run_ad_task env input s))) ''task_status'' = Some (PStr ''finished'') \<and>
           map_of (cur_context (snd (run_ad_task env input s))) ''progress'' = Some (PFloat 100)"
proof -
  fix e assume "fst (looped env input s) = Inl e"
  then show "run_ad_task env input s =
             (Inr (exception_result e (cur_context (snd (looped env input s)))), snd (looped env input s))"
    unfolding run_ad_task_eq[OF tpl] by simp
next
  fix res assume "fst (looped env input s) = Inr (Some res)"
  then show "run_ad_task env input s = (Inr res, snd (looped env input s))"
    unfolding run_ad_task_eq[OF tpl] by simp
next
  assume n: "fst (looped env input s) = Inr None"
  from looped_spec[OF tpl, of env input] n
  have ok: "task_ok (new_id env s) (snd (looped env input s))"
    and k: "kept_slots (flow_keys schedule_flow) (started env input s) (snd (looped env input s))"
    by (simp_all add: flow_post_def)
  from k flow_facts(3) init_facts(5)[OF tpl, of env input]
  have v: "map_of (cur_context (snd (looped env input s))) ''video_info'' = Some (PDict [])"
    by (simp add: kept_slots_def)
  note f = finish_task_eq[OF ok v, of env]
  have e: "run_ad_task env input s =
     (Inr (exception_result (KeyError ''final_video_path'')
            (cur_context (snd (finish_task env (PStr (new_id env s)) (snd (looped env input s)))))),
      snd (finish_task env (PStr (new_id env s)) (snd (looped env input s))))"
    unfolding run_ad_task_eq[OF tpl] using n f(1) by simp
  show "fst (run_ad_task env input s) =
             Inr (exception_result (KeyError ''final_video_path'') (cur_context (snd (run_ad_task env input s)))) \<and>
           snd (run_ad_task env input s) =
             snd (finish_task env (PStr (new_id env s)) (snd (looped env input s))) \<and>
           map_of (cur_context (snd (run_ad_task env input s))) ''task_status'' = Some (PStr ''finished'') \<and>
           map_of (cur_context (snd (run_ad_task env input s))) ''progress'' = Some (PFloat 100)"
    unfolding e fst_conv snd_conv using f(2,3) by simp
qed

lemma result_codes:
  "map_of (exception_result e c) ''code'' = Some (PInt 500)"
  "map_of (exception_result e c) ''status'' = Some (PStr ''failed'')"
  "map_of (exception_result e c) ''final_video_path'' = None"
  "map_of (exception_result e c) ''current_step'' = None"
  "map_of (failure_result t n err c) ''code'' = Some (PInt 500)"
  "map_of (failure_result t n err c) ''status'' = Some (PStr ''failed'')"
  "map_of (failure_result t n err c) ''final_video_path'' = None"
  "map_of (failure_result t n err c) ''current_step'' = Some (PStr n)"
  "map_of (failure_result t n err c) ''error'' = Some err"
  "map_of (failure_result t n err c) ''context'' = Some (PDict c)"
  by (simp_all add: exception_result_def failure_result_def)

text \<open>
  Claim C1 says that a task whose seven steps all succeed returns code 200 with the path of
  the video. \<^verbatim>\<open>run_ad_task\<close> never returns code 200. When the loop has run to its end, the
  task is marked finished with progress 100 and the result is then read from
  \<^verbatim>\<open>final_context["video_info"]["final_video_path"]\<close>; the loop stored the result of the last
  step under \<^verbatim>\<open>video_generator_info\<close>, and \<^verbatim>\<open>video_info\<close> is still the empty dictionary of the
  template, so the subscript raises \<^verbatim>\<open>KeyError\<close> and the handler returns code 500.
\<close>

theorem run_ad_task_never_succeeds:
  assumes "context_template s = initial_template a"
  shows "(\<exists>res. fst (run_ad_task env input s) = Inr res \<and>
            map_of res ''code'' = Some (PInt 500) \<and>
            map_of res ''status'' = Some (PStr ''failed'') \<and>
            map_of res ''final_video_path'' = None) \<and>
         ((\<forall>m t c w. run_succeeds (fst (run_module env m t c w))) \<and>
          (\<forall>p w. fst (user_confirm env p w) = Inr True) \<and>
          validate_input (heap s) DemandInteractModule [(''initial_input'', input)] = Inr True \<longrightarrow>
            fst (looped env input s) = Inr None) \<and>
         (fst (looped env input s) = Inr None \<longrightarrow>
            fst (run_ad_task env input s) =
              Inr (exception_result (KeyError ''final_video_path'')
                     (cur_context (snd (run_ad_task env input s)))) \<and>
            map_of (cur_context (snd (run_ad_task env input s))) ''task_status'' = Some (PStr ''finished'') \<and>
            map_of (cur_context (snd (run_ad_task env input s))) ''progress'' = Some (PFloat 100))"
proof (intro conjI)
  note c = run_ad_task_cases[OF assms, of env input]
  show "\<exists>res. fst (run_ad_task env input s) = Inr res \<and>
            map_of res ''code'' = Some (PInt 500) \<and>
            map_of res ''status'' = Some (PStr ''failed'') \<and>
            map_of res ''final_video_path'' = None"
  proof (cases "fst (looped env input s)")
    case (Inl e)
    show ?thesis unfolding c(1)[OF Inl] by (simp add: result_codes)
  next
    case (Inr r)
    show ?thesis
    proof (cases r)
      case None
      with Inr c(3) have "fst (run_ad_task env input s) =
         Inr (exception_result (KeyError ''final_video_path'') (cur_context (snd (run_ad_task env input s))))"
        by simp
      then show ?thesis by (simp add: result_codes)
    next
      case (Some res)
      with Inr have l: "fst (looped env input s) = Inr (Some res)" by simp
      from looped_spec[OF assms, of env input] l
      obtain m where "res = failure_result (PStr (new_id env s)) m
          (error (outcome_for m (last (trace (snd (looped env input s))))))
          (cur_context (snd (looped env input s)))"
        unfolding flow_post_def by blast
      then show ?thesis unfolding c(2)[OF l] by (simp add: result_codes)
    qed
  qed
  show "(\<forall>m t c w. run_succeeds (fst (run_module env m t c w))) \<and>
          (\<forall>p w. fst (user_confirm env p w) = Inr True) \<and>
          validate_input (heap s) DemandInteractModule [(''initial_input'', input)] = Inr True \<longrightarrow>
            fst (looped env input s) = Inr None"
    using all_succeed_loop(1)[OF assms] by blast
  show "fst (looped env input s) = Inr None \<longrightarrow>
            fst (run_ad_task env input s) =
              Inr (exception_result (KeyError ''final_video_path'')
                     (cur_context (snd (run_ad_task env input s)))) \<and>
            map_of (cur_context (snd (run_ad_task env input s))) ''task_status'' = Some (PStr ''finished'') \<and>
            map_of (cur_context (snd (run_ad_task env input s))) ''progress'' = Some (PFloat 100)"
    using c(3) by blast
qed

theorem run_ad_task_never_succeeds_witness:
  "context_template (new_control_plane ()) = initial_template 0 \<and>
   validate_input (heap (new_control_plane ())) DemandInteractModule [(''initial_input'', sample_input)] =
     Inr True \<and>
   fst (looped succeeding_env sample_input (new_control_plane ())) = Inr None \<and>
   fst (run_ad_task succeeding_env sample_input (new_control_plane ())) =
     Inr [(''code'', PInt 500),
          (''status'', PStr ''failed''),
          (''error'', PStr (msg_task_exception @ [CHR 0x27] @ ''final_video_path'' @ [CHR 0x27])),
          (''context'', PDict (cur_context (snd (run_ad_task succeeding_env sample_input (new_control_plane ())))))] \<and>
   map_of (cur_context (snd (run_ad_task succeeding_env sample_input (new_control_plane ())))) ''task_status'' =
     Some (PStr ''finished'')"
proof -
  have t: "context_template (new_control_plane ()) = initial_template 0"
    by (simp add: new_control_plane_def)
  have rs: "\<forall>m t c w. run_succeeds (fst (run_module succeeding_env m t c w))"
    by (simp add: succeeding_env_def)
  have cf: "\<forall>p w. fst (user_confirm succeeding_env p w) = Inr True"
    by (simp add: succeeding_env_def)
  have vi: "validate_input (heap (new_control_plane ())) DemandInteractModule
      [(''initial_input'', sample_input)] = Inr True"
    by (simp add: getitem_def sample_input_def py_in_def has_key_def)
  from run_ad_task_never_succeeds[OF t, of succeeding_env sample_input] t rs cf vi
  show ?thesis by (simp add: exception_result_def)
qed

subsection \<open>A task whose step fails\<close>









subsection \<open>The progress slot of the context\<close>

lemma mark_busy_progress:
  assumes "task_ok tid s" "calculate_progress name = Inr p"
  shows "map_of (cur_context (snd (mark_busy env name s))) ''progress'' = Some (PFloat p)"
proof -
  from assms(1) obtain kvs a where *: "map_of (cur_context s) ''task_id'' = Some (PStr tid)"
    "map_of (cur_context s) ''module_status'' = Some (PDict kvs)"
    "map_of (cur_context s) ''error_log'' = Some (PRef a)" by (rule task_ok_D)
  show ?thesis using * assms(2) by (simp add: mark_busy_def run_simps)
qed

lemma kept_progress:
  "kept K s s' \<Longrightarrow> ''progress'' \<notin> K \<Longrightarrow>
     map_of (cur_context s') ''progress'' = map_of (cur_context s) ''progress''"
  by (simp add: kept_def)

lemma dispatch_progress:
  assumes ok: "task_ok tid s" and reg: "map_of module_registry name = Some m"
    and p: "calculate_progress name = Inr p"
  shows "map_of (cur_context (busy_state env m s)) ''progress'' = Some (PFloat p)"
    and "map_of (cur_context (snd (dispatch_module env name s))) ''progress'' =
           (if validate_input (heap s) m (cur_context s) = Inr True then Some (PFloat p)
            else map_of (cur_context s) ''progress'')"
    and "\<And>out. fst (dispatch_module env name s) = Inr out \<Longrightarrow> status out \<noteq> ''failed'' \<Longrightarrow>
           validate_input (heap s) m (cur_context s) = Inr True"
proof -
  have n: "mod_name m = name" using reg by (rule registry_name)
  have okv: "task_ok tid (validated m s)" using ok by simp
  show b: "map_of (cur_context (busy_state env m s)) ''progress'' = Some (PFloat p)"
    unfolding busy_state_def n by (rule mark_busy_progress[OF okv p])
  have r: "\<And>t. map_of (cur_context (ran_state env m t s)) ''progress'' = Some (PFloat p)"
    using b by (simp add: ran_facts(7)[OF ok reg])
  have ok3: "\<And>t. task_ok tid (ran_state env m t s)" by (rule ran_facts(1)[OF ok reg])
  have mf: "\<And>msg s1. task_ok tid s1 \<Longrightarrow>
      map_of (cur_context (snd (mark_failed env name msg s1))) ''progress'' =
      map_of (cur_context s1) ''progress''"
  proof -
    fix msg and s1 :: "'a state" assume "task_ok tid s1"
    from mark_failed_ok[OF this, of env name msg]
    have "kept {''module_status'', ''error_log'', ''update_time''} s1 (snd (mark_failed env name msg s1))"
      by blast
    then show "map_of (cur_context (snd (mark_failed env name msg s1))) ''progress'' =
      map_of (cur_context s1) ''progress''" by (rule kept_progress) simp
  qed
  have rs: "\<And>v s1. task_ok tid s1 \<Longrightarrow>
      map_of (cur_context (snd (record_status env name v s1))) ''progress'' =
      map_of (cur_context s1) ''progress'' \<and> task_ok tid (snd (record_status env name v s1))"
  proof -
    fix v and s1 :: "'a state" assume "task_ok tid s1"
    note u = record_status_ok[OF this, of env name v]
    from u have "kept {''module_status'', ''update_time''} s1 (snd (record_status env name v s1))"
      by blast
    then have "map_of (cur_context (snd (record_status env name v s1))) ''progress'' =
      map_of (cur_context s1) ''progress''" by (rule kept_progress) simp
    with u show "map_of (cur_context (snd (record_status env name v s1))) ''progress'' =
      map_of (cur_context s1) ''progress'' \<and> task_ok tid (snd (record_status env name v s1))" by blast
  qed
  have lf: "\<And>err s1. task_ok tid s1 \<Longrightarrow>
      map_of (cur_context (snd (log_failure env (PStr tid) name err s1))) ''progress'' =
      map_of (cur_context s1) ''progress''"
  proof -
    fix err and s1 :: "'a state" assume "task_ok tid s1"
    from log_failure_ok[OF this, of env name err]
    have "kept {} s1 (snd (log_failure env (PStr tid) name err s1))" by blast
    then show "map_of (cur_context (snd (log_failure env (PStr tid) name err s1))) ''progress'' =
      map_of (cur_context s1) ''progress''" by (rule kept_progress) simp
  qed
  show "map_of (cur_context (snd (dispatch_module env name s))) ''progress'' =
           (if validate_input (heap s) m (cur_context s) = Inr True then Some (PFloat p)
            else map_of (cur_context s) ''progress'')"
  proof (cases "validate_input (heap s) m (cur_context s)")
    case (Inl e)
    then show ?thesis unfolding dispatch_validate_raises[OF ok reg Inl] by (simp add: validated_def)
  next
    case (Inr b)
    show ?thesis
    proof (cases b)
      case False
      with Inr have v: "validate_input (heap s) m (cur_context s) = Inr False" by simp
      show ?thesis unfolding dispatch_validate_false[OF ok reg v] using mf[OF okv] v
        by (simp add: validated_def)
    next
      case True
      with Inr have v: "validate_input (heap s) m (cur_context s) = Inr True" by simp
      show ?thesis
      proof (cases "run_outcome_at env m (PStr tid) s")
        case (Raises e)
        show ?thesis unfolding dispatch_validate_true[OF ok reg v] Raises
          using mf[OF ok3] r v by simp
      next
        case (Returns res)
        show ?thesis unfolding dispatch_validate_true[OF ok reg v] Returns
          using rs[OF ok3] lf r v by simp
      qed
    qed
  qed
  fix out assume o: "fst (dispatch_module env name s) = Inr out" and st: "status out \<noteq> ''failed''"
  show "validate_input (heap s) m (cur_context s) = Inr True"
  proof (cases "validate_input (heap s) m (cur_context s)")
    case (Inl e)
    with o show ?thesis unfolding dispatch_validate_raises[OF ok reg Inl] by simp
  next
    case (Inr b)
    show ?thesis
    proof (cases b)
      case False
      with Inr have v: "validate_input (heap s) m (cur_context s) = Inr False" by simp
      from o st show ?thesis unfolding dispatch_validate_false[OF ok reg v]
        by (auto simp: failed_outcome_def)
    next
      case True
      with Inr show ?thesis by simp
    qed
  qed
qed

lemma keepsI:
  assumes "\<And>s. task_ok tid s \<Longrightarrow> prog_in A s \<Longrightarrow> prog_in A (snd (f s))"
    and "\<And>s a. task_ok tid s \<Longrightarrow> prog_in A s \<Longrightarrow> fst (f s) = Inr a \<Longrightarrow> task_ok tid (snd (f s))"
  shows "keeps tid A f"
  using assms unfolding keeps_def by blast

lemma keepsD:
  assumes "keeps tid A f" "task_ok tid s" "prog_in A s"
  shows "prog_in A (snd (f s))" and "\<And>a. fst (f s) = Inr a \<Longrightarrow> task_ok tid (snd (f s))"
  using assms unfolding keeps_def by blast+

lemma keeps_pbind:
  fixes f :: "('w, 'a) prog" and g :: "'a \<Rightarrow> ('w, 'b) prog"
  assumes f: "keeps tid A f" and g: "\<And>a. keeps tid A (g a)"
  shows "keeps tid A (pbind f g)"
proof (rule keepsI)
  fix s :: "'w state" assume s: "task_ok tid s" "prog_in A s"
  show "prog_in A (snd (pbind f g s))"
  proof (cases "fst (f s)")
    case (Inl e)
    then have "pbind f g s = (Inl e, snd (f s))" by (simp add: pbind_def case_prod_beta)
    then show ?thesis using keepsD(1)[OF f s] by simp
  next
    case (Inr a)
    then have e: "pbind f g s = g a (snd (f s))" by (simp add: pbind_def case_prod_beta)
    show ?thesis unfolding e
      by (rule keepsD(1)[OF g keepsD(2)[OF f s Inr] keepsD(1)[OF f s]])
  qed
next
  fix s :: "'w state" and b assume s: "task_ok tid s" "prog_in A s" and r: "fst (pbind f g s) = Inr b"
  show "task_ok tid (snd (pbind f g s))"
  proof (cases "fst (f s)")
    case (Inl e)
    then have "pbind f g s = (Inl e, snd (f s))" by (simp add: pbind_def case_prod_beta)
    with r show ?thesis by simp
  next
    case (Inr a)
    then have e: "pbind f g s = g a (snd (f s))" by (simp add: pbind_def case_prod_beta)
    show ?thesis using r unfolding e
      by (rule keepsD(2)[OF g keepsD(2)[OF f s Inr] keepsD(1)[OF f s]])
  qed
qed

lemma keeps_ret: "keeps tid A (ret a)"
  by (simp add: keeps_def ret_def)

lemma keeps_get_context: "keeps tid A get_context"
  by (simp add: keeps_def get_context_def)

lemma keeps_if: "keeps tid A f \<Longrightarrow> keeps tid A g \<Longrightarrow> keeps tid A (if c then f else g)"
  by simp

lemma keeps_world:
  "keeps tid A (call_user_confirm env prompt)" "keeps tid A (call_input_feedback env)"
  by (simp_all add: keeps_def call_user_confirm_def call_input_feedback_def case_prod_beta
      prog_in_def)

lemma keeps_kept:
  fixes f :: "('w, 'a) prog"
  assumes "\<And>s. task_ok tid s \<Longrightarrow> kept K s (snd (f s)) \<and> task_ok tid (snd (f s))"
    and "''progress'' \<notin> K"
  shows "keeps tid A f"
proof (rule keepsI)
  fix s :: "'w state" assume s: "task_ok tid s" "prog_in A s"
  from assms(1)[OF s(1)] have "kept K s (snd (f s))" by blast
  from kept_progress[OF this assms(2)] s(2) show "prog_in A (snd (f s))" by (simp add: prog_in_def)
next
  fix s :: "'w state" assume "task_ok tid s"
  from assms(1)[OF this] show "task_ok tid (snd (f s))" by blast
qed

lemma keeps_feedback: "keeps tid A (inject_feedback fb)" "keeps tid A clear_feedback"
proof -
  show "keeps tid A (inject_feedback fb)"
    by (rule keeps_kept[where K = "{''user_feedback''}"])
       (simp_all add: inject_feedback_facts)
  show "keeps tid A clear_feedback"
    by (rule keeps_kept[where K = "{''user_feedback''}"])
       (simp_all add: clear_feedback_facts)
qed

lemma keeps_store_result: "keeps tid A (store_result env name v)"
  by (rule keeps_kept[where K = "{name @ ''_info'', ''update_time''}"])
     (simp_all add: store_result_ok info_key_neq)

lemma keeps_mark_task_failed: "keeps tid A (update_context env [(''task_status'', PStr ''failed'')])"
  by (rule keeps_kept[where K = "{''task_status'', ''update_time''}"])
     (simp_all add: mark_task_failed_ok)

lemma keeps_fail_task: "keeps tid A (fail_task env name err)"
proof (rule keeps_kept[where K = "{''task_status'', ''error_log'', ''update_time''}"])
  fix s :: "'a state" assume "task_ok tid s"
  from fail_task_ok[OF this, of env name err]
  show "kept {''task_status'', ''error_log'', ''update_time''} s (snd (fail_task env name err s)) \<and>
     task_ok tid (snd (fail_task env name err s))" by blast
qed simp

lemma keeps_dispatch:
  assumes reg: "map_of module_registry name = Some m" and p: "calculate_progress name = Inr p"
    and A: "Some (PFloat p) \<in> A"
  shows "keeps tid A (dispatch_module env name)"
proof (rule keepsI)
  fix s :: "'a state" assume s: "task_ok tid s" "prog_in A s"
  show "prog_in A (snd (dispatch_module env name s))"
    using dispatch_progress(2)[OF s(1) reg p, of env] s(2) A by (simp add: prog_in_def)
next
  fix s :: "'a state" and a assume "task_ok tid s" "fst (dispatch_module env name s) = Inr a"
  with dispatch_spec[OF \<open>task_ok tid s\<close> reg, of env]
  show "task_ok tid (snd (dispatch_module env name s))" by (simp add: dispatch_post_def)
qed

lemma keeps_revise:
  assumes reg: "map_of module_registry name = Some m" and p: "calculate_progress name = Inr p"
    and A: "Some (PFloat p) \<in> A"
  shows "keeps tid A (revise env t name)"
  unfolding revise_def
  by (intro keeps_pbind keeps_if keeps_ret keeps_get_context keeps_world keeps_feedback
      keeps_store_result keeps_mark_task_failed keeps_dispatch[OF reg p A])

lemma keeps_after_dispatch:
  assumes reg: "map_of module_registry name = Some m" and p: "calculate_progress name = Inr p"
    and A: "Some (PFloat p) \<in> A"
  shows "keeps tid A
     (if status out = ''failed'' then
       pbind (fail_task env name (error out)) (\<lambda>_.
       pbind get_context (\<lambda>final_context.
       ret (Some (failure_result t name (error out) final_context))))
     else
       pbind (store_result env name (result out)) (\<lambda>_.
       if check_pause_node name then
         (let prompt = (if name = ''story_builder'' then prompt_story else prompt_storyboard)
          in
          pbind (call_user_confirm env prompt) (\<lambda>confirmed.
          if confirmed then ret None else revise env t name))
       else ret None))"
  unfolding Let_def
  by (intro keeps_pbind keeps_if keeps_ret keeps_get_context keeps_world keeps_fail_task
      keeps_store_result keeps_revise[OF reg p A])

lemma keeps_run_step:
  assumes reg: "map_of module_registry name = Some m" and p: "calculate_progress name = Inr p"
    and A: "Some (PFloat p) \<in> A"
  shows "keeps tid A (run_step env t name)"
  unfolding run_step_def
  by (rule keeps_pbind[OF keeps_dispatch[OF reg p A] keeps_after_dispatch[OF reg p A]])

lemma run_step_done_progress:
  assumes ok: "task_ok tid s" and reg: "map_of module_registry name = Some m"
    and p: "calculate_progress name = Inr p"
    and fin: "fst (run_step env (PStr tid) name s) = Inr None"
  shows "map_of (cur_context (snd (run_step env (PStr tid) name s))) ''progress'' = Some (PFloat p)"
proof (cases "fst (dispatch_module env name s)")
  case (Inl e)
  then have "run_step env (PStr tid) name s = (Inl e, snd (dispatch_module env name s))"
    by (simp add: run_step_def pbind_def case_prod_beta)
  with fin show ?thesis by simp
next
  case (Inr out)
  let ?rest = "if status out = ''failed'' then
       pbind (fail_task env name (error out)) (\<lambda>_.
       pbind get_context (\<lambda>final_context.
       ret (Some (failure_result (PStr tid) name (error out) final_context))))
     else
       pbind (store_result env name (result out)) (\<lambda>_.
       if check_pause_node name then
         (let prompt = (if name = ''story_builder'' then prompt_story else prompt_storyboard)
          in
          pbind (call_user_confirm env prompt) (\<lambda>confirmed.
          if confirmed then ret None else revise env (PStr tid) name))
       else ret None)"
  have e: "run_step env (PStr tid) name s = ?rest (snd (dispatch_module env name s))"
    using Inr by (simp add: run_step_def pbind_def case_prod_beta)
  from dispatch_spec[OF ok reg, of env] Inr have okd: "task_ok tid (snd (dispatch_module env name s))"
    by (simp add: dispatch_post_def)
  have nf: "status out \<noteq> ''failed''"
  proof
    assume f: "status out = ''failed''"
    from fail_task_ok[OF okd, of env name "error out"]
    have "fst (fail_task env name (error out) (snd (dispatch_module env name s))) = Inr ()" by blast
    with fin f show False unfolding e
      by (simp add: pbind_def case_prod_beta get_context_def ret_def)
  qed
  from dispatch_progress(3)[OF ok reg p Inr nf]
  have v: "validate_input (heap s) m (cur_context s) = Inr True" .
  have q: "prog_in {Some (PFloat p)} (snd (dispatch_module env name s))"
    using dispatch_progress(2)[OF ok reg p, of env] v by (simp add: prog_in_def)
  have A: "Some (PFloat p) \<in> {Some (PFloat p)}" by simp
  note ka = keeps_after_dispatch[OF reg p A, where tid = tid and out = out and env = env and t = "PStr tid"]
  have "prog_in {Some (PFloat p)} (snd (?rest (snd (dispatch_module env name s))))"
    by (rule keepsD(1)[OF ka okd q])
  then show ?thesis unfolding e prog_in_def singleton_iff .
qed

subsection \<open>The progress of a task\<close>

lemma flow_registered:
  assumes "index < length schedule_flow"
  shows "map_of module_registry (schedule_flow ! index) \<noteq> None"
proof -
  from assms have "index < 7" by (simp add: schedule_flow_def)
  from below_seven[OF this] show ?thesis
    by (elim disjE) (simp_all add: schedule_flow_def module_registry_def)
qed

lemma keeps_run_flow:
  assumes "\<forall>n\<in>set names. \<exists>m p. map_of module_registry n = Some m \<and>
             calculate_progress n = Inr p \<and> Some (PFloat p) \<in> A"
  shows "keeps tid A (run_flow env t names)"
  using assms
proof (induction names)
  case Nil
  show ?case by (simp add: keeps_ret)
next
  case (Cons n names)
  from Cons.prems obtain m p where n: "map_of module_registry n = Some m"
    "calculate_progress n = Inr p" "Some (PFloat p) \<in> A" by auto
  from Cons.prems have "\<forall>n\<in>set names. \<exists>m p. map_of module_registry n = Some m \<and>
             calculate_progress n = Inr p \<and> Some (PFloat p) \<in> A" by simp
  then have ih: "keeps tid A (run_flow env t names)" by (rule Cons.IH)
  have k: "\<And>r. keeps tid A (case r of None \<Rightarrow> run_flow env t names | Some res \<Rightarrow> ret (Some res))"
  proof -
    fix r :: "dict option"
    show "keeps tid A (case r of None \<Rightarrow> run_flow env t names | Some res \<Rightarrow> ret (Some res))"
      by (cases r) (simp_all add: ih keeps_ret)
  qed
  show ?case
    unfolding run_flow.simps
    by (rule keeps_pbind[OF keeps_run_step[OF n] k])
qed

lemma rest_of_flow_progress:
  assumes "index < length schedule_flow" "n \<in> set (drop index schedule_flow)"
  shows "\<exists>m. map_of module_registry n = Some m"
    and "\<exists>j. index \<le> j \<and> j < length schedule_flow \<and> calculate_progress n = Inr (spec_progress j)"
proof -
  from assms(2) obtain k where k: "k < length (drop index schedule_flow)"
    "drop index schedule_flow ! k = n" by (auto simp: in_set_conv_nth)
  from k assms(1) have "index \<le> index + k" "index + k < length schedule_flow"
    "n = schedule_flow ! (index + k)" by auto
  then obtain j where j: "index \<le> j" "j < length schedule_flow" "n = schedule_flow ! j" by blast
  from flow_registered[OF j(2)] show "\<exists>m. map_of module_registry n = Some m" by (auto simp: j(3))
  from progress_values j(2) have "calculate_progress n = Inr (spec_progress j)" by (simp add: j(3))
  with j(1,2) show "\<exists>j. index \<le> j \<and> j < length schedule_flow \<and>
      calculate_progress n = Inr (spec_progress j)" by blast
qed

lemma rest_of_flow_keeps:
  assumes i: "index < length schedule_flow" and q: "q \<le> spec_progress index"
  shows "keeps tid {x. \<exists>q'. x = Some (PFloat q') \<and> q \<le> q' \<and> q' \<le> 100}
           (run_flow env t (drop index schedule_flow))"
proof (rule keeps_run_flow, rule ballI)
  fix n assume n: "n \<in> set (drop index schedule_flow)"
  from rest_of_flow_progress[OF i n] obtain m j where m: "map_of module_registry n = Some m"
    and j: "index \<le> j" "j < length schedule_flow" "calculate_progress n = Inr (spec_progress j)"
    by blast
  from progress_values i j(1,2) have "spec_progress index \<le> spec_progress j" by simp
  moreover from progress_values j(2) have "spec_progress j \<le> 100" by simp
  ultimately have "Some (PFloat (spec_progress j)) \<in>
      {x. \<exists>q'. x = Some (PFloat q') \<and> q \<le> q' \<and> q' \<le> 100}" using q by simp
  with m j(3) show "\<exists>m p. map_of module_registry n = Some m \<and> calculate_progress n = Inr p \<and>
      Some (PFloat p) \<in> {x. \<exists>q'. x = Some (PFloat q') \<and> q \<le> q' \<and> q' \<le> 100}" by blast
qed

text \<open>
  Claim C7. When the step at 0-based position \<open>index\<close> of the fixed order is dispatched on
  the context of a task and its input is valid, the dispatcher stores
  \<open>round((index + 1) / 7 * 100, 2)\<close> in the \<^verbatim>\<open>progress\<close> slot before it calls \<^verbatim>\<open>run\<close>, and the
  slot holds that value when the dispatch returns and when the round of the loop has
  completed the step, whatever the module and the operator do. A round of the loop leaves
  the slot as it was or sets it to that value. The values are 14.29, 28.57, 42.86, 57.14,
  71.43, 85.71 and 100: they lie between 0 and 100 and do not decrease along the order. So
  the progress does not decrease over a run: when the slot holds a value that is not above
  the one of the step at hand, the rest of the loop, however it ends, leaves a value in the
  slot that is not smaller and not above 100.
\<close>

theorem progress_of_step:
  assumes "index < length schedule_flow" and "name = schedule_flow ! index"
    and "map_of module_registry name = Some m" and "task_ok tid s"
  shows "calculate_progress name = Inr (spec_progress index) \<and>
         spec_progress index =
           [1429 / 100, 2857 / 100, 4286 / 100, 5714 / 100, 7143 / 100, 8571 / 100, 100] ! index \<and>
         (validate_input (heap s) m (cur_context s) = Inr True \<longrightarrow>
            map_of (cur_context (busy_state env m s)) ''progress'' = Some (PFloat (spec_progress index)) \<and>
            map_of (cur_context (snd (dispatch_module env name s))) ''progress'' =
              Some (PFloat (spec_progress index))) \<and>
         (fst (run_step env (PStr tid) name s) = Inr None \<longrightarrow>
            map_of (cur_context (snd (run_step env (PStr tid) name s))) ''progress'' =
              Some (PFloat (spec_progress index))) \<and>
         map_of (cur_context (snd (run_step env (PStr tid) name s))) ''progress'' \<in>
           {map_of (cur_context s) ''progress'', Some (PFloat (spec_progress index))} \<and>
         0 \<le> spec_progress index \<and> spec_progress index \<le> 100 \<and>
         (\<forall>j<length schedule_flow. index \<le> j \<longrightarrow> spec_progress index \<le> spec_progress j) \<and>
         (\<forall>q. map_of (cur_context s) ''progress'' = Some (PFloat q) \<longrightarrow> q \<le> spec_progress index \<longrightarrow>
            (\<exists>q'. map_of (cur_context (snd (run_flow env (PStr tid) (drop index schedule_flow) s)))
                    ''progress'' = Some (PFloat q') \<and> q \<le> q' \<and> q' \<le> 100))"
proof -
  from progress_values assms(1,2)
  have p: "calculate_progress name = Inr (spec_progress index)"
    and b: "0 \<le> spec_progress index" "spec_progress index \<le> 100"
    and mono: "\<forall>j<length schedule_flow. index \<le> j \<longrightarrow> spec_progress index \<le> spec_progress j"
    by simp_all
  from assms(1) have "index < 7" by (simp add: schedule_flow_def)
  from below_seven[OF this]
  have v: "spec_progress index =
      [1429 / 100, 2857 / 100, 4286 / 100, 5714 / 100, 7143 / 100, 8571 / 100, 100] ! index"
    by (elim disjE) (simp_all add: spec_progress_at)
  note d = dispatch_progress[OF assms(4,3) p, of env]
  have dv: "validate_input (heap s) m (cur_context s) = Inr True \<longrightarrow>
            map_of (cur_context (busy_state env m s)) ''progress'' = Some (PFloat (spec_progress index)) \<and>
            map_of (cur_context (snd (dispatch_module env name s))) ''progress'' =
              Some (PFloat (spec_progress index))"
    using d(1,2) by simp
  have rs: "fst (run_step env (PStr tid) name s) = Inr None \<longrightarrow>
            map_of (cur_context (snd (run_step env (PStr tid) name s))) ''progress'' =
              Some (PFloat (spec_progress index))"
    using run_step_done_progress[OF assms(4,3) p] by blast
  have A: "Some (PFloat (spec_progress index)) \<in>
      {map_of (cur_context s) ''progress'', Some (PFloat (spec_progress index))}" by simp
  have q: "prog_in {map_of (cur_context s) ''progress'', Some (PFloat (spec_progress index))} s"
    by (simp add: prog_in_def)
  have k: "map_of (cur_context (snd (run_step env (PStr tid) name s))) ''progress'' \<in>
           {map_of (cur_context s) ''progress'', Some (PFloat (spec_progress index))}"
    using keepsD(1)[OF keeps_run_step[OF assms(3) p A] assms(4) q] unfolding prog_in_def .
  have fl: "\<forall>q. map_of (cur_context s) ''progress'' = Some (PFloat q) \<longrightarrow> q \<le> spec_progress index \<longrightarrow>
            (\<exists>q'. map_of (cur_context (snd (run_flow env (PStr tid) (drop index schedule_flow) s)))
                    ''progress'' = Some (PFloat q') \<and> q \<le> q' \<and> q' \<le> 100)"
  proof (intro allI impI)
    fix q assume q: "map_of (cur_context s) ''progress'' = Some (PFloat q)" "q \<le> spec_progress index"
    from q b(2) have "prog_in {x. \<exists>q'. x = Some (PFloat q') \<and> q \<le> q' \<and> q' \<le> 100} s"
      by (simp add: prog_in_def)
    from keepsD(1)[OF rest_of_flow_keeps[OF assms(1) q(2)] assms(4) this, of env "PStr tid"]
    show "\<exists>q'. map_of (cur_context (snd (run_flow env (PStr tid) (drop index schedule_flow) s)))
                    ''progress'' = Some (PFloat q') \<and> q \<le> q' \<and> q' \<le> 100"
      by (simp add: prog_in_def)
  qed
  show ?thesis using p v dv rs k b mono fl by blast
qed

theorem progress_of_step_witness:
  "1 < length schedule_flow \<and> ''story_builder'' = schedule_flow ! 1 \<and>
   map_of module_registry ''story_builder'' = Some StoryBuilderModule \<and>
   task_ok ''a1b2c3d4'' story_ready_state \<and>
   validate_input (heap story_ready_state) StoryBuilderModule (cur_context story_ready_state) = Inr True \<and>
   fst (run_step succeeding_env (PStr ''a1b2c3d4'') ''story_builder'' story_ready_state) = Inr None \<and>
   (5 < length schedule_flow \<and> (1::nat) \<le> 5 \<and> spec_progress 1 \<le> spec_progress 5) \<and>
   calculate_progress ''story_builder'' = Inr (2857 / 100) \<and>
   map_of (cur_context (busy_state succeeding_env StoryBuilderModule story_ready_state)) ''progress'' =
     Some (PFloat (2857 / 100)) \<and>
   map_of (cur_context (snd (dispatch_module succeeding_env ''story_builder'' story_ready_state))) ''progress'' =
     Some (PFloat (2857 / 100)) \<and>
   map_of (cur_context (snd (run_step succeeding_env (PStr ''a1b2c3d4'') ''story_builder'' story_ready_state)))
     ''progress'' = Some (PFloat (2857 / 100)) \<and>
   map_of (cur_context story_ready_state) ''progress'' = Some (PFloat 0) \<and>
   (\<exists>q'. map_of (cur_context (snd (run_flow succeeding_env (PStr ''a1b2c3d4'') (drop 1 schedule_flow)
                                      story_ready_state))) ''progress'' = Some (PFloat q') \<and>
         0 \<le> q' \<and> q' \<le> 100)"
proof -
  have l: "1 < length schedule_flow" "5 < length schedule_flow" "''story_builder'' = schedule_flow ! 1"
    by (simp_all add: schedule_flow_def)
  have o: "run_outcome_at succeeding_env StoryBuilderModule (PStr ''a1b2c3d4'') story_ready_state =
      Returns \<lparr>status = ''success'',
                result = PDict [(''final_video_path'', PStr ''./ad_output/a1b2c3d4/ad.mp4'')],
                error = PNone\<rparr>"
    by (simp add: run_outcome_at_def succeeding_env_def)
  have cf: "\<forall>p w. fst (user_confirm succeeding_env p w) = Inr True" by (simp add: succeeding_env_def)
  have r: "fst (run_step succeeding_env (PStr ''a1b2c3d4'') ''story_builder'' story_ready_state) = Inr None"
    by (rule success_step(1)[OF story_ready_facts(1,2,3) o _ cf]) simp
  have p0: "map_of (cur_context story_ready_state) ''progress'' = Some (PFloat 0)"
    by (simp add: story_ready_state_def sample_state_def sample_context_def initial_template_def
        update_conv')
  have q0: "(0::rat) \<le> spec_progress 1" by (simp add: spec_progress_at)
  have le15: "(1::nat) \<le> 5" by simp
  note th = progress_of_step[OF l(1,3) story_ready_facts(2,1), of succeeding_env]
  from th have c: "calculate_progress ''story_builder'' = Inr (spec_progress 1)"
    and m: "spec_progress 1 \<le> spec_progress 5" using l(2) le15 by blast+
  from th story_ready_facts(3) r
  have d: "map_of (cur_context (busy_state succeeding_env StoryBuilderModule story_ready_state)) ''progress'' =
       Some (PFloat (spec_progress 1))"
    "map_of (cur_context (snd (dispatch_module succeeding_env ''story_builder'' story_ready_state))) ''progress'' =
       Some (PFloat (spec_progress 1))"
    "map_of (cur_context (snd (run_step succeeding_env (PStr ''a1b2c3d4'') ''story_builder'' story_ready_state)))
       ''progress'' = Some (PFloat (spec_progress 1))"
    by blast+
  from th p0 q0
  have f: "\<exists>q'. map_of (cur_context (snd (run_flow succeeding_env (PStr ''a1b2c3d4'') (drop 1 schedule_flow)
                                      story_ready_state))) ''progress'' = Some (PFloat q') \<and>
         0 \<le> q' \<and> q' \<le> 100"
    by blast
  have v: "spec_progress 1 = 2857 / 100" by (simp add: spec_progress_at)
  show ?thesis
    using l story_ready_facts(1,2,3) r c m d p0 f le15 unfolding v by blast
qed

subsection \<open>The error log of the template\<close>

lemma heap_mark_busy:
  assumes "task_ok tid s" "name \<in> set schedule_flow"
  shows "heap (snd (mark_busy env name s)) = heap s"
    and "map_of (cur_context (snd (mark_busy env name s))) ''error_log'' = map_of (cur_context s) ''error_log''"
proof -
  from assms(1) obtain kvs a where *: "map_of (cur_context s) ''task_id'' = Some (PStr tid)"
    "map_of (cur_context s) ''module_status'' = Some (PDict kvs)"
    "map_of (cur_context s) ''error_log'' = Some (PRef a)" by (rule task_ok_D)
  from assms(2) obtain p where p: "calculate_progress name = Inr p" using calculate_progress_ok by blast
  show "heap (snd (mark_busy env name s)) = heap s"
    and "map_of (cur_context (snd (mark_busy env name s))) ''error_log'' = map_of (cur_context s) ''error_log''"
    using * p by (simp_all add: mark_busy_def run_simps)
qed

lemma heap_record_status:
  assumes "task_ok tid s"
  shows "heap (snd (record_status env name v s)) = heap s"
    and "map_of (cur_context (snd (record_status env name v s))) ''error_log'' =
           map_of (cur_context s) ''error_log''"
proof -
  from assms(1) obtain kvs a where *: "map_of (cur_context s) ''task_id'' = Some (PStr tid)"
    "map_of (cur_context s) ''module_status'' = Some (PDict kvs)"
    "map_of (cur_context s) ''error_log'' = Some (PRef a)" by (rule task_ok_D)
  show "heap (snd (record_status env name v s)) = heap s"
    and "map_of (cur_context (snd (record_status env name v s))) ''error_log'' =
           map_of (cur_context s) ''error_log''"
    using * by (simp_all add: record_status_def run_simps)
qed

lemma heap_log_failure:
  assumes "task_ok tid s" "map_of (cur_context s) ''error_log'' = Some (PRef a)"
  shows "heap (snd (log_failure env (PStr tid) name err s)) a =
           heap s a @ [error_entry name err (fst (strftime env (world s)))]"
    and "next_ref (snd (log_failure env (PStr tid) name err s)) = next_ref s"
proof -
  from assms(1) have *: "map_of (cur_context s) ''task_id'' = Some (PStr tid)" by (simp add: task_ok_def)
  show "heap (snd (log_failure env (PStr tid) name err s)) a =
           heap s a @ [error_entry name err (fst (strftime env (world s)))]"
    and "next_ref (snd (log_failure env (PStr tid) name err s)) = next_ref s"
    using * assms(2) by (simp_all add: log_failure_def run_simps)
qed

lemma heap_fail_task:
  assumes "task_ok tid s" "a < next_ref s"
  shows "heap (snd (fail_task env name err s)) a = heap s a"
proof -
  from assms(1) obtain kvs b where *: "map_of (cur_context s) ''task_id'' = Some (PStr tid)"
    "map_of (cur_context s) ''module_status'' = Some (PDict kvs)"
    "map_of (cur_context s) ''error_log'' = Some (PRef b)" by (rule task_ok_D)
  show ?thesis using * assms(2) by (simp add: fail_task_def run_simps)
qed

lemma returned_failure_in_place:
  assumes ok: "task_ok tid s" and reg: "map_of module_registry name = Some m"
    and v: "validate_input (heap s) m (cur_context s) = Inr True"
    and o: "run_outcome_at env m (PStr tid) s = Returns r" and f: "status r = ''failed''"
    and el: "map_of (cur_context s) ''error_log'' = Some (PRef a)" and a: "a < next_ref s"
  shows "fst (dispatch_module env name s) = Inr r"
    and "\<exists>t. heap (snd (dispatch_module env name s)) a = heap s a @ [error_entry name (error r) t]"
    and "\<exists>t. heap (snd (run_step env (PStr tid) name s)) a = heap s a @ [error_entry name (error r) t]"
    and "fst (run_step env (PStr tid) name s) =
           Inr (Some (failure_result (PStr tid) name (error r) (cur_context (snd (run_step env (PStr tid) name s)))))"
    and "context_template (snd (run_step env (PStr tid) name s)) = context_template s"
proof -
  have n: "mod_name m = name" and fl: "name \<in> set schedule_flow"
    using reg by (simp_all add: registry_name registry_flow)
  have okv: "task_ok tid (validated m s)" using ok by simp
  have hb: "heap (busy_state env m s) = heap s"
    "map_of (cur_context (busy_state env m s)) ''error_log'' = Some (PRef a)"
    using heap_mark_busy[OF okv fl, of env] el by (simp_all add: busy_state_def n validated_def)
  define s3 where "s3 = ran_state env m (PStr tid) s"
  have h3: "heap s3 = heap s" "map_of (cur_context s3) ''error_log'' = Some (PRef a)"
    using hb by (simp_all add: s3_def ran_state_def)
  have ok3: "task_ok tid s3" unfolding s3_def by (rule ran_facts(1)[OF ok reg])
  define s4 where "s4 = snd (record_status env name ''failed'' s3)"
  have h4: "heap s4 = heap s" "map_of (cur_context s4) ''error_log'' = Some (PRef a)"
    using heap_record_status[OF ok3, of env name "''failed''"] h3 by (simp_all add: s4_def)
  from record_status_ok[OF ok3, of env name "''failed''"] have ok4: "task_ok tid s4"
    by (simp add: s4_def)
  have d: "dispatch_module env name s = (Inr r, snd (log_failure env (PStr tid) name (error r) s4))"
    unfolding dispatch_validate_true[OF ok reg v] o using f by (simp add: s4_def s3_def)
  show d1: "fst (dispatch_module env name s) = Inr r" by (simp add: d)
  have hd: "heap (snd (dispatch_module env name s)) a =
      heap s a @ [error_entry name (error r) (fst (strftime env (world s4)))]"
    unfolding d snd_conv using heap_log_failure(1)[OF ok4 h4(2), of env name "error r"] h4(1) by simp
  then show "\<exists>t. heap (snd (dispatch_module env name s)) a = heap s a @ [error_entry name (error r) t]"
    by blast
  from dispatch_spec[OF ok reg, of env] d1
  have okd: "task_ok tid (snd (dispatch_module env name s))"
    and nr: "next_ref s \<le> next_ref (snd (dispatch_module env name s))"
    and kt: "context_template (snd (dispatch_module env name s)) = context_template s"
    by (simp_all add: dispatch_post_def kept_slots_def)
  from a nr have a': "a < next_ref (snd (dispatch_module env name s))" by simp
  note rs = run_step_failed_eq[OF ok reg d1 f]
  have "heap (snd (run_step env (PStr tid) name s)) a = heap (snd (dispatch_module env name s)) a"
    unfolding rs snd_conv by (rule heap_fail_task[OF okd a'])
  with hd show "\<exists>t. heap (snd (run_step env (PStr tid) name s)) a = heap s a @ [error_entry name (error r) t]"
    by simp blast
  show "fst (run_step env (PStr tid) name s) =
           Inr (Some (failure_result (PStr tid) name (error r) (cur_context (snd (run_step env (PStr tid) name s)))))"
    unfolding rs by simp
  from fail_task_ok[OF okd, of env name "error r"]
  have "kept {''task_status'', ''error_log'', ''update_time''} (snd (dispatch_module env name s))
     (snd (fail_task env name (error r) (snd (dispatch_module env name s))))" by blast
  then show "context_template (snd (run_step env (PStr tid) name s)) = context_template s"
    unfolding rs snd_conv using kt by (simp add: kept_def)
qed

text \<open>
  Claim C10 says that every context that \<^verbatim>\<open>init_ad_task\<close> returns starts with an empty error
  log, also after an earlier task on the same control plane had failed dispatches.
  \<^verbatim>\<open>self.context_template.copy()\<close> is a shallow copy, so the new context refers to the
  template's own error-log list; when \<^verbatim>\<open>run\<close> returns \<^verbatim>\<open>{"status": "failed"}\<close> the
  dispatcher appends to that list in place (every other update builds a new list with
  \<^verbatim>\<open>+\<close>). Here the first module of a task returns a failure; the context of every task
  initialised afterwards on that control plane starts with the entry of that failure in its
  error log, while its task status and module statuses are fresh.
\<close>

theorem template_error_log_is_shared:
  assumes "context_template s = initial_template a" "a < next_ref s"
    and "validate_input (heap s) DemandInteractModule [(''initial_input'', input)] = Inr True"
    and "run_outcome_at env DemandInteractModule (PStr (new_id env s)) (started env input s) = Returns r"
    and "status r = ''failed''"
  shows "(\<exists>t. error_log_of (started env' input' (snd (run_ad_task env input s))) =
               heap s a @ [error_entry ''demand_interact'' (error r) t]) \<and>
         error_log_of (started env' input' (snd (run_ad_task env input s))) \<noteq> [] \<and>
         map_of (cur_context (started env' input' (snd (run_ad_task env input s)))) ''task_status'' =
           Some (PStr ''processing'') \<and>
         (\<forall>n\<in>set schedule_flow.
            mstat (started env' input' (snd (run_ad_task env input s))) n = Some (PStr ''idle''))"
proof -
  let ?T = "PStr (new_id env s)"
  let ?s0 = "started env input s"
  note i = init_facts[OF assms(1), of env input]
  have v: "validate_input (heap ?s0) DemandInteractModule (cur_context ?s0) = Inr True"
    using assms(3) by (simp add: getitem_def i(8) i(11))
  have el: "map_of (cur_context ?s0) ''error_log'' = Some (PRef a)"
    using assms(1) by (simp add: started_def init_ad_task_def new_task_id_def prog_defs case_prod_beta
        initial_template_def update_conv')
  have a0: "a < next_ref ?s0" using assms(2) by (simp add: i(12))
  note p = returned_failure_in_place[OF i(2) registry_facts(1) v assms(4,5) el a0]
  from p(3) obtain t where h: "heap (snd (run_step env ?T ''demand_interact'' ?s0)) a =
      heap s a @ [error_entry ''demand_interact'' (error r) t]" by (auto simp: i(11))
  have l: "looped env input s = run_step env ?T ''demand_interact'' ?s0"
    unfolding looped_def schedule_flow_def run_flow_Cons[of env ?T "''demand_interact''"] p(4)
    by (simp add: prod_eq_iff p(4))
  have fl: "fst (looped env input s) = Inr (Some (failure_result ?T ''demand_interact'' (error r)
       (cur_context (snd (run_step env ?T ''demand_interact'' ?s0)))))"
    unfolding l by (rule p(4))
  have e: "snd (run_ad_task env input s) = snd (run_step env ?T ''demand_interact'' ?s0)"
    unfolding run_ad_task_cases(2)[OF assms(1) fl] l by simp
  have tp: "context_template (snd (run_ad_task env input s)) = initial_template a"
    unfolding e p(5) i(10) by (rule assms(1))
  note j = init_facts[OF tp, of env' input']
  have lg: "error_log_of (started env' input' (snd (run_ad_task env input s))) =
      heap s a @ [error_entry ''demand_interact'' (error r) t]"
    using j(13) h by (simp add: e)
  show ?thesis using lg j(7) j(4) by auto
qed

theorem template_error_log_is_shared_witness:
  "context_template (new_control_plane ()) = initial_template 0 \<and>
   0 < next_ref (new_control_plane ()) \<and>
   validate_input (heap (new_control_plane ())) DemandInteractModule [(''initial_input'', sample_input)] =
     Inr True \<and>
   run_outcome_at failing_env DemandInteractModule (PStr (new_id failing_env (new_control_plane ())))
     (started failing_env sample_input (new_control_plane ())) =
     Returns \<lparr>status = ''failed'', result = PDict [], error = PStr ''X''\<rparr> \<and>
   error_log_of (started succeeding_env sample_input
       (snd (run_ad_task failing_env sample_input (new_control_plane ())))) \<noteq> [] \<and>
   length (error_log_of (started succeeding_env sample_input
       (snd (run_ad_task failing_env sample_input (new_control_plane ()))))) = 1"
proof -
  have t: "context_template (new_control_plane ()) = initial_template 0"
    and n: "0 < next_ref (new_control_plane ())"
    and h: "heap (new_control_plane ()) 0 = []"
    by (simp_all add: new_control_plane_def)
  have vi: "validate_input (heap (new_control_plane ())) DemandInteractModule
      [(''initial_input'', sample_input)] = Inr True"
    by (simp add: getitem_def sample_input_def py_in_def has_key_def)
  have o: "run_outcome_at failing_env DemandInteractModule (PStr (new_id failing_env (new_control_plane ())))
     (started failing_env sample_input (new_control_plane ())) =
     Returns \<lparr>status = ''failed'', result = PDict [], error = PStr ''X''\<rparr>"
    by (simp add: run_outcome_at_def failing_env_def)
  have st: "status \<lparr>status = ''failed'', result = PDict [], error = PStr ''X''\<rparr> = ''failed''" by simp
  from template_error_log_is_shared[OF t n vi o st, of succeeding_env sample_input]
  obtain x where "error_log_of (started succeeding_env sample_input
       (snd (run_ad_task failing_env sample_input (new_control_plane ())))) =
      heap (new_control_plane ()) 0 @ [x]" by blast
  then show ?thesis using t n vi o by (simp add: h)
qed

subsection \<open>The operator's feedback\<close>

lemma not_failed_valid:
  assumes ok: "task_ok tid s" and reg: "map_of module_registry name = Some m"
    and o: "fst (dispatch_module env name s) = Inr out" and nf: "status out \<noteq> ''failed''"
  shows "validate_input (heap s) m (cur_context s) = Inr True"
proof -
  from calculate_progress_ok[OF registry_flow[OF reg]] obtain p where "calculate_progress name = Inr p"
    by blast
  from dispatch_progress(3)[OF ok reg this o nf] show ?thesis .
qed

lemma pause_valid_kept:
  assumes reg: "map_of module_registry name = Some m" and pause: "check_pause_node name"
    and k: "\<And>k. k \<notin> dispatch_keys \<union> {name @ ''_info'', ''update_time'', ''user_feedback''} \<Longrightarrow>
              map_of c' k = map_of c k"
  shows "validate_input h' m c' = validate_input h m c"
proof -
  from pause consider "name = ''story_builder''" | "name = ''storyboard_designer''"
    by (auto simp: check_pause_node_def PAUSE_NODES_def)
  then show ?thesis
  proof cases
    case 1
    with reg have m: "m = StoryBuilderModule" by (simp add: registry_facts)
    have "map_of c' ''demand_interact_info'' = map_of c ''demand_interact_info''"
      by (rule k) (simp add: 1 dispatch_keys_def)
    then show ?thesis by (simp add: m has_key_map_of)
  next
    case 2
    with reg have m: "m = StoryboardDesignModule" by (simp add: registry_facts)
    have "map_of c' ''scene_designer_info'' = map_of c ''scene_designer_info''"
      "map_of c' ''story_builder_info'' = map_of c ''story_builder_info''"
      by (rule k, simp add: 2 dispatch_keys_def)+
    then show ?thesis by (simp add: m has_key_map_of)
  qed
qed

lemma run_step_declined:
  assumes ok: "task_ok tid s" and reg: "map_of module_registry name = Some m"
    and pause: "check_pause_node name"
    and o: "fst (dispatch_module env name s) = Inr out" and nf: "status out \<noteq> ''failed''"
    and cf: "fst (user_confirm env (pause_prompt name) (world (at_pause env name s))) = Inr False"
  shows "run_step env (PStr tid) name s = revise env (PStr tid) name (answered env name s)"
    and "task_ok tid (answered env name s)"
    and "trace (answered env name s) = trace (snd (dispatch_module env name s))"
    and "\<And>k. k \<notin> dispatch_keys \<union> {name @ ''_info'', ''update_time''} \<Longrightarrow>
           map_of (cur_context (answered env name s)) k = map_of (cur_context s) k"
proof -
  define sd where "sd = snd (dispatch_module env name s)"
  have d: "dispatch_module env name s = (Inr out, sd)" using o by (simp add: sd_def prod_eq_iff)
  from dispatch_spec[OF ok reg, of env] o
  have okd: "task_ok tid sd" and kd: "kept_slots dispatch_keys s sd"
    by (simp_all add: dispatch_post_def sd_def)
  define s2 where "s2 = snd (store_result env name (result out) sd)"
  note sr = store_result_ok[OF okd, where env = env and name = name and v = "result out", folded s2_def]
  have sr1: "store_result env name (result out) sd = (Inr (), s2)"
    using sr(1) by (simp add: prod_eq_iff s2_def)
  have ap: "at_pause env name s = s2" by (simp add: at_pause_def d s2_def)
  have an: "answered env name s = s2\<lparr>world := snd (user_confirm env (pause_prompt name) (world s2))\<rparr>"
    by (simp add: answered_def ap)
  show "run_step env (PStr tid) name s = revise env (PStr tid) name (answered env name s)"
    unfolding run_step_def pbind_def d an using nf pause cf[unfolded ap]
    by (simp add: sr1 call_user_confirm_def case_prod_beta Let_def pause_prompt_def)
  show "task_ok tid (answered env name s)" using sr(2) by (simp add: an)
  show "trace (answered env name s) = trace (snd (dispatch_module env name s))"
    using sr(4) by (simp add: an kept_def sd_def)
  fix k assume k: "k \<notin> dispatch_keys \<union> {name @ ''_info'', ''update_time''}"
  from sr(4) k have "map_of (cur_context s2) k = map_of (cur_context sd) k" by (simp add: kept_def)
  moreover from kd k have "map_of (cur_context sd) k = map_of (cur_context s) k"
    by (simp add: kept_slots_def)
  ultimately show "map_of (cur_context (answered env name s)) k = map_of (cur_context s) k"
    by (simp add: an)
qed

lemma revise_trace:
  assumes ok: "task_ok tid s" and reg: "map_of module_registry name = Some m"
    and fb: "fst (input_feedback env (world s)) = Inr fb"
    and v: "validate_input (heap (revision_state env fb s)) m (cur_context (revision_state env fb s)) = Inr True"
  shows "trace (snd (revise env (PStr tid) name s)) =
           trace s @ [CallValidate name (cur_context (revision_state env fb s)),
                      CallRun name (PStr tid) (cur_context (busy_state env m (revision_state env fb s)))
                        (run_outcome_at env m (PStr tid) (revision_state env fb s))]"
    and "\<exists>x. fst (revise env (PStr tid) name s) = Inr x"
    and "map_of (cur_context (snd (revise env (PStr tid) name s))) ''user_feedback'' = None"
    and "fst (revise env (PStr tid) name s) = Inr None \<Longrightarrow> task_ok tid (snd (revise env (PStr tid) name s))"
    and "\<And>out'. fst (dispatch_module env name (revision_state env fb s)) = Inr out' \<Longrightarrow>
           status out' \<noteq> ''failed'' \<Longrightarrow> fst (revise env (PStr tid) name s) = Inr None"
proof -
  define s1 where "s1 = revision_state env fb s"
  define d where "d = dispatch_module env name s1"
  define s3 where "s3 = snd (clear_feedback (snd d))"
  have ok1: "task_ok tid s1" using ok by (simp add: s1_def revision_state_def inject_feedback_facts)
  have t1: "trace s1 = trace s"
    using inject_feedback_facts(3)[where fb = fb and s = "s\<lparr>world := snd (input_feedback env (world s))\<rparr>"]
    by (simp add: s1_def revision_state_def kept_def)
  have td: "trace (snd d) = trace (ran_state env m (PStr tid) s1)"
    using dispatch_trace_cases[OF ok1 reg, of env] v by (simp add: d_def s1_def)
  have "\<exists>out. fst d = Inr out"
    unfolding d_def dispatch_validate_true[OF ok1 reg v[folded s1_def]]
    by (cases "run_outcome_at env m (PStr tid) s1") simp_all
  then obtain out where out: "fst d = Inr out" by blast
  from dispatch_spec[OF ok1 reg, of env, folded d_def] out
  have okd: "task_ok tid (snd d)" by (simp add: dispatch_post_def)
  have ok3: "task_ok tid s3" using okd by (simp add: s3_def clear_feedback_facts)
  have t3: "trace s3 = trace (snd d)"
    using clear_feedback_facts(3)[where s = "snd d"] by (simp add: s3_def kept_def)
  have u3: "map_of (cur_context s3) ''user_feedback'' = None" by (simp add: s3_def clear_feedback_facts)
  have r1: "revise env (PStr tid) name s =
      (if status out = ''failed'' then
         (Inr (Some (failure_result (PStr tid) name (error out)
            (cur_context (snd (update_context env [(''task_status'', PStr ''failed'')] s3))))),
          snd (update_context env [(''task_status'', PStr ''failed'')] s3))
       else (Inr None, snd (store_result env name (result out) s3)))"
    using fb out mark_task_failed_ok(1)[OF ok3, of env]
      store_result_ok(1)[OF ok3, where env = env and name = name and v = "result out"]
    by (simp add: revise_def pbind_def call_input_feedback_def case_prod_beta inject_feedback_facts(1)
        clear_feedback_facts(1) d_def s1_def s3_def revision_state_def get_context_def ret_def)
  note u = mark_task_failed_ok[OF ok3, where env = env]
  note w = store_result_ok[OF ok3, where env = env and name = name and v = "result out"]
  have tr: "trace (snd (revise env (PStr tid) name s)) = trace (snd d)"
    unfolding r1 using u(4) w(4) t3 by (simp add: kept_def)
  show "trace (snd (revise env (PStr tid) name s)) =
           trace s @ [CallValidate name (cur_context (revision_state env fb s)),
                      CallRun name (PStr tid) (cur_context (busy_state env m (revision_state env fb s)))
                        (run_outcome_at env m (PStr tid) (revision_state env fb s))]"
    unfolding tr td using ran_facts(5)[OF ok1 reg, of env "PStr tid"] t1 by (simp add: s1_def)
  show "\<exists>x. fst (revise env (PStr tid) name s) = Inr x" unfolding r1 by simp
  show "map_of (cur_context (snd (revise env (PStr tid) name s))) ''user_feedback'' = None"
    unfolding r1 using u(4) w(4) u3 info_key_neq(6)[of name] by (simp add: kept_def)
  show "fst (revise env (PStr tid) name s) = Inr None \<Longrightarrow> task_ok tid (snd (revise env (PStr tid) name s))"
    unfolding r1 using w(2) by (simp split: if_splits)
  fix out' assume "fst (dispatch_module env name (revision_state env fb s)) = Inr out'"
    "status out' \<noteq> ''failed''"
  with out have "status out \<noteq> ''failed''" by (simp add: d_def s1_def)
  then show "fst (revise env (PStr tid) name s) = Inr None" unfolding r1 by simp
qed

lemma revision_facts:
  assumes ok: "task_ok tid s" and reg: "map_of module_registry name = Some m"
    and pause: "check_pause_node name"
    and nofb: "map_of (cur_context s) ''user_feedback'' = None"
    and o: "fst (dispatch_module env name s) = Inr out" and nf: "status out \<noteq> ''failed''"
    and cf: "fst (user_confirm env (pause_prompt name) (world (at_pause env name s))) = Inr False"
    and fb: "fst (input_feedback env (world (answered env name s))) = Inr fb" and ne: "fb \<noteq> []"
  shows "task_ok tid (revision_state env fb (answered env name s))"
    and "validate_input (heap (revision_state env fb (answered env name s))) m
           (cur_context (revision_state env fb (answered env name s))) = Inr True"
    and "map_of (cur_context (revision_state env fb (answered env name s))) ''user_feedback'' = Some (PStr fb)"
    and "map_of (cur_context (answered env name s)) ''user_feedback'' = None"
proof -
  let ?a = "answered env name s"
  let ?r = "revision_state env fb ?a"
  note rd = run_step_declined[OF ok reg pause o nf cf]
  show okr: "task_ok tid ?r" using rd(2) by (simp add: revision_state_def inject_feedback_facts)
  have ua: "map_of (cur_context ?a) ''user_feedback'' = map_of (cur_context s) ''user_feedback''"
    by (rule rd(4)) (simp add: dispatch_keys_def info_key_neq)
  then show "map_of (cur_context ?a) ''user_feedback'' = None" using nofb by simp
  show "map_of (cur_context ?r) ''user_feedback'' = Some (PStr fb)"
    using ne by (simp add: revision_state_def inject_feedback_facts)
  have k: "\<And>k. k \<notin> dispatch_keys \<union> {name @ ''_info'', ''update_time'', ''user_feedback''} \<Longrightarrow>
      map_of (cur_context ?r) k = map_of (cur_context s) k"
  proof -
    fix k assume k: "k \<notin> dispatch_keys \<union> {name @ ''_info'', ''update_time'', ''user_feedback''}"
    have "kept {''user_feedback''} (?a\<lparr>world := snd (input_feedback env (world ?a))\<rparr>) ?r"
      unfolding revision_state_def by (rule inject_feedback_facts(3))
    with k have "map_of (cur_context ?r) k = map_of (cur_context ?a) k" by (simp add: kept_def)
    also from k have "\<dots> = map_of (cur_context s) k" by (intro rd(4)) simp
    finally show "map_of (cur_context ?r) k = map_of (cur_context s) k" .
  qed
  from pause_valid_kept[OF reg pause k, of "heap ?r" "heap s"] not_failed_valid[OF ok reg o nf]
  show "validate_input (heap ?r) m (cur_context ?r) = Inr True" by simp
qed

text \<open>
  Claim C6. At a pause node the step has been dispatched and its result stored, the operator
  declines and gives a text that is not empty. The round then makes exactly one more dispatch
  of the same module: one validation and one \<^verbatim>\<open>run\<close>, both on a context whose
  \<^verbatim>\<open>user_feedback\<close> is that text. No context of the first dispatch held the key and the
  context did not hold it when the operator answered; the round returns with a context
  without the key, whatever the second dispatch gave; and no call of the next dispatch, of
  any module, sees the key.
\<close>

theorem feedback_only_in_revision:
  assumes "task_ok tid s" "map_of module_registry name = Some m" "check_pause_node name"
    and "map_of (cur_context s) ''user_feedback'' = None"
    and "fst (dispatch_module env name s) = Inr out" "status out \<noteq> ''failed''"
    and "fst (user_confirm env (pause_prompt name) (world (at_pause env name s))) = Inr False"
    and "fst (input_feedback env (world (answered env name s))) = Inr fb" "fb \<noteq> []"
  shows "trace (snd (run_step env (PStr tid) name s)) =
           trace (snd (dispatch_module env name s)) @
             [CallValidate name (cur_context (revision_state env fb (answered env name s))),
              CallRun name (PStr tid)
                (cur_context (busy_state env m (revision_state env fb (answered env name s))))
                (run_outcome_at env m (PStr tid) (revision_state env fb (answered env name s)))] \<and>
         map_of (cur_context (revision_state env fb (answered env name s))) ''user_feedback'' =
           Some (PStr fb) \<and>
         map_of (cur_context (busy_state env m (revision_state env fb (answered env name s))))
           ''user_feedback'' = Some (PStr fb) \<and>
         (\<exists>evs. trace (snd (dispatch_module env name s)) = trace s @ evs \<and>
            (\<forall>e\<in>set evs. map_of (event_context e) ''user_feedback'' = None)) \<and>
         map_of (cur_context (answered env name s)) ''user_feedback'' = None \<and>
         (\<exists>x. fst (run_step env (PStr tid) name s) = Inr x) \<and>
         map_of (cur_context (snd (run_step env (PStr tid) name s))) ''user_feedback'' = None \<and>
         (\<forall>env' n m'. map_of module_registry n = Some m' \<longrightarrow>
            fst (run_step env (PStr tid) name s) = Inr None \<longrightarrow>
            (\<exists>evs. trace (snd (dispatch_module env' n (snd (run_step env (PStr tid) name s)))) =
                    trace (snd (run_step env (PStr tid) name s)) @ evs \<and>
               (\<forall>e\<in>set evs. map_of (event_context e) ''user_feedback'' = None)))"
proof -
  let ?a = "answered env name s"
  let ?r = "revision_state env fb ?a"
  let ?s' = "snd (run_step env (PStr tid) name s)"
  note rd = run_step_declined[OF assms(1,2,3,5,6,7)]
  note rf = revision_facts[OF assms]
  note rt = revise_trace[OF rd(2) assms(2,8) rf(2), folded rd(1)]
  have 1: "trace ?s' = trace (snd (dispatch_module env name s)) @
             [CallValidate name (cur_context ?r),
              CallRun name (PStr tid) (cur_context (busy_state env m ?r))
                (run_outcome_at env m (PStr tid) ?r)]"
    using rt(1) by (simp add: rd(3))
  from busy_facts(3)[OF rf(1) assms(2), of env]
  have 3: "map_of (cur_context (busy_state env m ?r)) ''user_feedback'' = Some (PStr fb)"
    using rf(3) by (simp add: kept_slots_def dispatch_keys_def)
  have ev: "\<And>(env' :: 'a env) n m' s0. task_ok tid s0 \<Longrightarrow> map_of module_registry n = Some m' \<Longrightarrow>
      map_of (cur_context s0) ''user_feedback'' = None \<Longrightarrow>
      \<exists>evs. trace (snd (dispatch_module env' n s0)) = trace s0 @ evs \<and>
            (\<forall>e\<in>set evs. map_of (event_context e) ''user_feedback'' = None)"
  proof -
    fix env' :: "'a env" and n m' and s0 :: "'a state"
    assume a: "task_ok tid s0" "map_of module_registry n = Some m'"
      "map_of (cur_context s0) ''user_feedback'' = None"
    from dispatch_spec[OF a(1,2), of env']
    obtain evs where e: "trace (snd (dispatch_module env' n s0)) = trace s0 @ evs"
      "\<forall>e\<in>set evs. event_module e = n \<and>
           (\<forall>k. k \<notin> dispatch_keys \<longrightarrow> map_of (event_context e) k = map_of (cur_context s0) k)"
      unfolding dispatch_post_def by blast
    have "\<forall>e\<in>set evs. map_of (event_context e) ''user_feedback'' = None"
    proof
      fix x assume "x \<in> set evs"
      with e(2) have "\<forall>k. k \<notin> dispatch_keys \<longrightarrow> map_of (event_context x) k = map_of (cur_context s0) k"
        by simp
      then have "map_of (event_context x) ''user_feedback'' = map_of (cur_context s0) ''user_feedback''"
        by (simp add: dispatch_keys_def)
      then show "map_of (event_context x) ''user_feedback'' = None" using a(3) by simp
    qed
    with e(1) show "\<exists>evs. trace (snd (dispatch_module env' n s0)) = trace s0 @ evs \<and>
            (\<forall>e\<in>set evs. map_of (event_context e) ''user_feedback'' = None)" by blast
  qed
  have 4: "\<exists>evs. trace (snd (dispatch_module env name s)) = trace s @ evs \<and>
            (\<forall>e\<in>set evs. map_of (event_context e) ''user_feedback'' = None)"
    by (rule ev[OF assms(1,2,4)])
  have 8: "\<forall>env' n m'. map_of module_registry n = Some m' \<longrightarrow>
            fst (run_step env (PStr tid) name s) = Inr None \<longrightarrow>
            (\<exists>evs. trace (snd (dispatch_module env' n ?s')) = trace ?s' @ evs \<and>
               (\<forall>e\<in>set evs. map_of (event_context e) ''user_feedback'' = None))"
  proof (intro allI impI)
    fix env' :: "'a env" and n m'
    assume a: "map_of module_registry n = Some m'" "fst (run_step env (PStr tid) name s) = Inr None"
    show "\<exists>evs. trace (snd (dispatch_module env' n ?s')) = trace ?s' @ evs \<and>
               (\<forall>e\<in>set evs. map_of (event_context e) ''user_feedback'' = None)"
      by (rule ev[OF rt(4)[OF a(2)] a(1) rt(3)])
  qed
  show ?thesis using 1 rf(3) 3 4 rf(4) rt(2) rt(3) 8 by blast
qed

lemma returned_dispatch:
  assumes ok: "task_ok tid s" and reg: "map_of module_registry name = Some m"
    and v: "validate_input (heap s) m (cur_context s) = Inr True"
    and o: "run_outcome_at env m (PStr tid) s = Returns r"
  shows "fst (dispatch_module env name s) = Inr r"
    and "trace (snd (dispatch_module env name s)) =
           trace s @ [CallValidate name (cur_context s),
                      CallRun name (PStr tid) (cur_context (busy_state env m s)) (Returns r)]"
proof -
  show "fst (dispatch_module env name s) = Inr r"
    unfolding dispatch_validate_true[OF ok reg v] o by simp
  show "trace (snd (dispatch_module env name s)) =
           trace s @ [CallValidate name (cur_context s),
                      CallRun name (PStr tid) (cur_context (busy_state env m s)) (Returns r)]"
    using dispatch_trace_cases[OF ok reg, of env] v ran_facts(5)[OF ok reg, of env "PStr tid"] o
    by simp
qed

theorem feedback_only_in_revision_witness:
  "task_ok ''a1b2c3d4'' story_ready_state \<and>
   map_of module_registry ''story_builder'' = Some StoryBuilderModule \<and>
   check_pause_node ''story_builder'' \<and>
   map_of (cur_context story_ready_state) ''user_feedback'' = None \<and>
   fst (dispatch_module revising_env ''story_builder'' story_ready_state) =
     Inr \<lparr>status = ''success'', result = PDict [], error = PNone\<rparr> \<and>
   fst (user_confirm revising_env (pause_prompt ''story_builder'')
          (world (at_pause revising_env ''story_builder'' story_ready_state))) = Inr False \<and>
   fst (input_feedback revising_env (world (answered revising_env ''story_builder'' story_ready_state))) =
     Inr ''make it funnier'' \<and>
   length (trace (snd (run_step revising_env (PStr ''a1b2c3d4'') ''story_builder'' story_ready_state))) = 4 \<and>
   map_of (cur_context (busy_state revising_env StoryBuilderModule
       (revision_state revising_env ''make it funnier''
          (answered revising_env ''story_builder'' story_ready_state)))) ''user_feedback'' =
     Some (PStr ''make it funnier'') \<and>
   fst (run_step revising_env (PStr ''a1b2c3d4'') ''story_builder'' story_ready_state) = Inr None \<and>
   map_of (cur_context (snd (run_step revising_env (PStr ''a1b2c3d4'') ''story_builder'' story_ready_state)))
     ''user_feedback'' = None \<and>
   map_of module_registry ''scene_designer'' = Some SceneDesignModule \<and>
   (\<exists>evs. trace (snd (dispatch_module revising_env ''scene_designer''
              (snd (run_step revising_env (PStr ''a1b2c3d4'') ''story_builder'' story_ready_state)))) =
           trace (snd (run_step revising_env (PStr ''a1b2c3d4'') ''story_builder'' story_ready_state)) @ evs \<and>
      (\<forall>e\<in>set evs. map_of (event_context e) ''user_feedback'' = None))"
proof -
  let ?T = "PStr ''a1b2c3d4''"
  let ?ok = "\<lparr>status = ''success'', result = PDict [], error = PNone\<rparr>"
  let ?a = "answered revising_env ''story_builder'' story_ready_state"
  let ?r = "revision_state revising_env ''make it funnier'' ?a"
  have p: "check_pause_node ''story_builder''" by (simp add: check_pause_node_def PAUSE_NODES_def)
  have u: "map_of (cur_context story_ready_state) ''user_feedback'' = None"
    by (simp add: story_ready_state_def sample_state_def sample_context_def initial_template_def
        update_conv')
  have o: "\<And>s. run_outcome_at revising_env StoryBuilderModule ?T s = Returns ?ok"
    by (simp add: run_outcome_at_def revising_env_def)
  note d = returned_dispatch[OF story_ready_facts(1,2,3) o]
  have nf: "status ?ok \<noteq> ''failed''" by simp
  have cf: "fst (user_confirm revising_env (pause_prompt ''story_builder'')
          (world (at_pause revising_env ''story_builder'' story_ready_state))) = Inr False"
    by (simp add: revising_env_def)
  have fb: "fst (input_feedback revising_env (world ?a)) = Inr ''make it funnier''"
    by (simp add: revising_env_def)
  have ne: "''make it funnier'' \<noteq> []" by simp
  note rd = run_step_declined[OF story_ready_facts(1,2) p d(1) nf cf]
  note rf = revision_facts[OF story_ready_facts(1,2) p u d(1) nf cf fb ne]
  note d2 = returned_dispatch[OF rf(1) story_ready_facts(2) rf(2) o]
  note rt = revise_trace[OF rd(2) story_ready_facts(2) fb rf(2), folded rd(1)]
  have n: "fst (run_step revising_env ?T ''story_builder'' story_ready_state) = Inr None"
    by (rule rt(5)[OF d2(1) nf])
  note th = feedback_only_in_revision[OF story_ready_facts(1,2) p u d(1) nf cf fb ne]
  from th have t: "trace (snd (run_step revising_env ?T ''story_builder'' story_ready_state)) =
           trace (snd (dispatch_module revising_env ''story_builder'' story_ready_state)) @
             [CallValidate ''story_builder'' (cur_context ?r),
              CallRun ''story_builder'' ?T (cur_context (busy_state revising_env StoryBuilderModule ?r))
                (run_outcome_at revising_env StoryBuilderModule ?T ?r)]"
    and b: "map_of (cur_context (busy_state revising_env StoryBuilderModule ?r)) ''user_feedback'' =
           Some (PStr ''make it funnier'')"
    and e: "map_of (cur_context (snd (run_step revising_env ?T ''story_builder'' story_ready_state)))
           ''user_feedback'' = None"
    by blast+
  from th n registry_facts(3)
  have nx: "\<exists>evs. trace (snd (dispatch_module revising_env ''scene_designer''
              (snd (run_step revising_env ?T ''story_builder'' story_ready_state)))) =
           trace (snd (run_step revising_env ?T ''story_builder'' story_ready_state)) @ evs \<and>
      (\<forall>e\<in>set evs. map_of (event_context e) ''user_feedback'' = None)"
    by blast
  have l: "length (trace (snd (run_step revising_env ?T ''story_builder'' story_ready_state))) = 4"
    unfolding t d(2) by (simp add: story_ready_facts(6))
  show ?thesis
    using story_ready_facts(1,2) p u d(1) cf fb l b n e registry_facts(3) nx by blast
qed

end
